theory Spec2Isabelle
  imports Main "HOL-Library.Sublist" "HOL-Library.Multiset"
begin

section \<open>JavaScript string primitives\<close>

text \<open>
  A JavaScript string is modelled as a \<open>string\<close>, a list of \<open>char\<close>: one \<open>char\<close> per code
  unit, restricted to the code units 0..255. \<open>startsWith\<close> is \<open>prefix\<close>.
\<close>

definition is_space :: "char \<Rightarrow> bool" where
  \<comment> \<open>the white space and line terminators that \<open>trim\<close> strips, among the code units 0..255:
      TAB, LF, VT, FF, CR, SP, NBSP\<close>
  "is_space c = (of_char c \<in> {9, 10, 11, 12, 13, 32, 160 :: nat})"

definition trim :: "string \<Rightarrow> string" where
  "trim s = rev (dropWhile is_space (rev (dropWhile is_space s)))"

fun split_acc :: "char \<Rightarrow> string \<Rightarrow> string \<Rightarrow> string list" where
  "split_acc sep cur [] = [rev cur]"
| "split_acc sep cur (c # cs) =
     (if c = sep then rev cur # split_acc sep [] cs else split_acc sep (c # cur) cs)"

definition split :: "char \<Rightarrow> string \<Rightarrow> string list" where
  \<comment> \<open>\<open>s.split(sep)\<close> for a one-character separator\<close>
  "split sep s = split_acc sep [] s"

fun join :: "string \<Rightarrow> string list \<Rightarrow> string" where
  "join sep [] = []"
| "join sep [x] = x"
| "join sep (x # y # ys) = x @ sep @ join sep (y # ys)"

fun replace :: "string \<Rightarrow> string \<Rightarrow> string \<Rightarrow> string" where
  \<comment> \<open>\<open>s.replace(pat, rep)\<close> for a string pattern and a replacement without \<open>$\<close>: the first
      occurrence only\<close>
  "replace pat rep [] = (if pat = [] then rep else [])"
| "replace pat rep (c # cs) =
     (if prefix pat (c # cs) then rep @ drop (length pat) (c # cs)
      else c # replace pat rep cs)"

definition replace_char_all :: "char \<Rightarrow> string \<Rightarrow> string \<Rightarrow> string" where
  \<comment> \<open>\<open>s.replace(/c/g, rep)\<close> for a one-character pattern and a replacement without \<open>$\<close>\<close>
  "replace_char_all c rep s = concat (map (\<lambda>x. if x = c then rep else [x]) s)"

definition char_lower :: "char \<Rightarrow> char" where
  "char_lower c =
     (let n = (of_char c :: nat)
      in if (65 \<le> n \<and> n \<le> 90) \<or> (192 \<le> n \<and> n \<le> 222 \<and> n \<noteq> 215) then char_of (n + 32) else c)"

definition toLowerCase :: "string \<Rightarrow> string" where
  "toLowerCase s = map char_lower s"

section \<open>Dates\<close>

text \<open>
  \<open>new Date(s).getTime()\<close> for the date-only form \<open>YYYY-MM-DD\<close> of the ECMAScript date-time
  string format: milliseconds since the epoch at UTC midnight of that day. \<open>None\<close> stands
  for NaN (an invalid date); strings outside this form are implementation-defined in
  ECMAScript and are outside the model, which answers \<open>None\<close> on them.
\<close>

definition digit :: "char \<Rightarrow> int option" where
  "digit c = (let n = (of_char c :: nat) in if 48 \<le> n \<and> n \<le> 57 then Some (int n - 48) else None)"

fun digits :: "int \<Rightarrow> string \<Rightarrow> int option" where
  "digits acc [] = Some acc"
| "digits acc (c # cs) = (case digit c of None \<Rightarrow> None | Some d \<Rightarrow> digits (10 * acc + d) cs)"

definition InLeapYear :: "int \<Rightarrow> bool" where
  "InLeapYear y = (y mod 4 = 0 \<and> (y mod 100 \<noteq> 0 \<or> y mod 400 = 0))"

definition DayFromYear :: "int \<Rightarrow> int" where
  "DayFromYear y =
     365 * (y - 1970) + (y - 1969) div 4 - (y - 1901) div 100 + (y - 1601) div 400"

definition DaysInMonth :: "int \<Rightarrow> int \<Rightarrow> int" where
  "DaysInMonth y m =
     (if m = 2 then (if InLeapYear y then 29 else 28)
      else if m \<in> {4, 6, 9, 11} then 30 else 31)"

definition DayWithinYear :: "int \<Rightarrow> int \<Rightarrow> int" where
  \<comment> \<open>days of the year before the first of month \<open>m\<close> (1..12)\<close>
  "DayWithinYear y m = (\<Sum>k \<leftarrow> [1..<nat m]. DaysInMonth y (int k))"

definition msPerDay :: int where
  "msPerDay = 86400000"

definition getTime :: "string \<Rightarrow> int option" where
  "getTime s =
     (if length s = 10 \<and> s ! 4 = CHR ''-'' \<and> s ! 7 = CHR ''-'' then
        (case (digits 0 (take 4 s), digits 0 (take 2 (drop 5 s)), digits 0 (drop 8 s)) of
           (Some y, Some m, Some d) \<Rightarrow>
             if 1 \<le> m \<and> m \<le> 12 \<and> 1 \<le> d \<and> d \<le> DaysInMonth y m
             then Some ((DayFromYear y + DayWithinYear y m + d - 1) * msPerDay)
             else None
         | _ \<Rightarrow> None)
      else None)"

section \<open>Array.prototype.sort\<close>

text \<open>
  \<open>xs.sort(cmp)\<close> is a stable sort: an element moves in front of another only when the
  comparator says it is smaller. It is modelled by a stable insertion sort. A comparator
  result NaN counts as 0.
\<close>

fun insert_by :: "('a \<Rightarrow> 'a \<Rightarrow> int) \<Rightarrow> 'a \<Rightarrow> 'a list \<Rightarrow> 'a list" where
  "insert_by cmp x [] = [x]"
| "insert_by cmp x (y # ys) =
     (if cmp x y \<le> 0 then x # y # ys else y # insert_by cmp x ys)"

definition sort_by :: "('a \<Rightarrow> 'a \<Rightarrow> int) \<Rightarrow> 'a list \<Rightarrow> 'a list" where
  "sort_by cmp xs = foldr (insert_by cmp) xs []"

section \<open>src/lib/blog-data.ts\<close>

record BlogPost =
  slug :: string
  title :: string
  description :: string
  content :: string
  author :: string
  date :: string
  readTime :: string
  tags :: "string list"
  image :: "string option"
  "keywords" :: "string list"

text \<open>
  The array \<open>blogPosts\<close> as the module initialises it. The seven \<open>content\<close> template
  literals (the article bodies) are taken as the parameter \<open>body\<close>, indexed by the
  position of the post; every other field is the literal of the source.
\<close>

definition blogPosts :: "(nat \<Rightarrow> string) \<Rightarrow> BlogPost list" where
  "blogPosts body =
   [ \<lparr> slug = ''building-modern-portfolio-website-nextjs'',
       title = ''Building a Modern Portfolio Website with Next.js - Debmalya Biswas'',
       description = ''Learn how Debmalya Biswas built a high-performance portfolio website using Next.js, React, and modern frontend technologies. A complete guide for frontend developers.'',
       content = body 0,
       author = ''Debmalya Biswas'',
       date = ''2024-12-01'',
       readTime = ''8 min read'',
       tags = [''Next.js'', ''React'', ''Portfolio'', ''Frontend Development''],
       image = Some ''/assets/blog/modern-portfolio.svg'',
       keywords = [''Debmalya Biswas'', ''Debmalya Biswas portfolio'', ''Debmalya Biswas frontend'', ''portfolio website'', ''Next.js portfolio''] \<rparr>,
     \<lparr> slug = ''mastering-react-hooks-frontend-development'',
       title = ''Mastering React Hooks: Advanced Patterns for Frontend Developers'',
       description = ''Debmalya Biswas shares advanced React Hooks patterns and best practices for building scalable frontend applications. Essential reading for React developers.'',
       content = body 1,
       author = ''Debmalya Biswas'',
       date = ''2024-11-28'',
       readTime = ''10 min read'',
       tags = [''React'', ''Hooks'', ''JavaScript'', ''Frontend''],
       image = Some ''/assets/blog/react-hooks.svg'',
       keywords = [''Debmalya Biswas'', ''Debmalya frontend'', ''React hooks'', ''frontend development'', ''Debmalya SDE''] \<rparr>,
     \<lparr> slug = ''nextjs-14-app-router-complete-guide'',
       title = ''Next.js 14 App Router: Complete Guide by Debmalya Biswas'',
       description = ''Comprehensive guide to Next.js 14 App Router by frontend developer Debmalya Biswas. Learn server components, routing, and advanced patterns.'',
       content = body 2,
       author = ''Debmalya Biswas'',
       date = ''2024-11-25'',
       readTime = ''12 min read'',
       tags = [''Next.js'', ''React'', ''App Router'', ''Server Components''],
       image = Some ''/assets/blog/nextjs-router.svg'',
       keywords = [''Debmalya Biswas'', ''Next.js tutorial'', ''Debmalya frontend'', ''Debmalya Biswas website''] \<rparr>,
     \<lparr> slug = ''typescript-best-practices-react-developers'',
       title = ''TypeScript Best Practices for React Developers - Debmalya Biswas'',
       description = ''Learn TypeScript best practices for React from Debmalya Biswas, frontend developer. Essential patterns for type-safe React applications.'',
       content = body 3,
       author = ''Debmalya Biswas'',
       date = ''2024-11-22'',
       readTime = ''9 min read'',
       tags = [''TypeScript'', ''React'', ''JavaScript'', ''Best Practices''],
       image = Some ''/assets/blog/typescript-best-practices.svg'',
       keywords = [''Debmalya Biswas'', ''TypeScript React'', ''Debmalya frontend'', ''Debmalya SDE''] \<rparr>,
     \<lparr> slug = ''web-performance-optimization-guide'',
       title = ''Web Performance Optimization: A Frontend Developer's Guide'',
       description = ''Debmalya Biswas shares comprehensive web performance optimization techniques for frontend developers. Learn to build lightning-fast websites.'',
       content = body 4,
       author = ''Debmalya Biswas'',
       date = ''2024-11-20'',
       readTime = ''11 min read'',
       tags = [''Performance'', ''Web Development'', ''Frontend'', ''Optimization''],
       image = Some ''/assets/blog/web-performance.svg'',
       keywords = [''Debmalya Biswas'', ''web performance'', ''Debmalya frontend'', ''Debmalya Biswas portfolio''] \<rparr>,
     \<lparr> slug = ''frontend-development-career-guide-2024'',
       title = ''Frontend Development Career Guide 2024 - Debmalya Biswas'',
       description = ''Complete career guide for aspiring frontend developers by Debmalya Biswas. Learn the skills, tools, and strategies to become a successful frontend SDE.'',
       content = body 5,
       author = ''Debmalya Biswas'',
       date = ''2024-11-18'',
       readTime = ''10 min read'',
       tags = [''Career'', ''Frontend Development'', ''Learning'', ''Guide''],
       image = Some ''/assets/blog/career-guide.svg'',
       keywords = [''Debmalya Biswas'', ''frontend developer'', ''Debmalya SDE'', ''frontend career'', ''Debmalya Biswas portfolio''] \<rparr>,
     \<lparr> slug = ''react-performance-optimization-techniques'',
       title = ''React Performance Optimization Techniques by Debmalya Biswas'',
       description = ''Master React performance optimization with Debmalya Biswas. Learn advanced techniques to build lightning-fast React applications.'',
       content = body 6,
       author = ''Debmalya Biswas'',
       date = ''2024-11-15'',
       readTime = ''10 min read'',
       tags = [''React'', ''Performance'', ''Optimization'', ''Frontend''],
       image = Some ''/assets/blog/react-performance.svg'',
       keywords = [''Debmalya Biswas'', ''React performance'', ''Debmalya frontend'', ''Debmalya SDE''] \<rparr> ]"

text \<open>
  \<open>blogPosts\<close> is a mutable module-level array: the helpers take the current array
  \<open>ps\<close>. \<open>getAllPosts\<close> sorts it in place and returns the array itself, so it yields the
  returned list together with the new array; the other helpers only read.
\<close>

definition date_cmp :: "BlogPost \<Rightarrow> BlogPost \<Rightarrow> int" where
  \<comment> \<open>\<open>(a, b) => new Date(b.date).getTime() - new Date(a.date).getTime()\<close>\<close>
  "date_cmp a b =
     (case (getTime (date b), getTime (date a)) of
        (Some tb, Some ta) \<Rightarrow> tb - ta
      | _ \<Rightarrow> 0)"

definition getAllPosts :: "BlogPost list \<Rightarrow> BlogPost list \<times> BlogPost list" where
  "getAllPosts ps = (let sorted = sort_by date_cmp ps in (sorted, sorted))"

definition getPostBySlug :: "BlogPost list \<Rightarrow> string \<Rightarrow> BlogPost option" where
  "getPostBySlug ps s = find (\<lambda>post. slug post = s) ps"

definition getPostsByTag :: "BlogPost list \<Rightarrow> string \<Rightarrow> BlogPost list" where
  "getPostsByTag ps tag =
     filter (\<lambda>post. list_ex (\<lambda>t. toLowerCase t = toLowerCase tag) (tags post)) ps"

fun string_less :: "string \<Rightarrow> string \<Rightarrow> bool" where
  \<comment> \<open>the default order of \<open>sort()\<close>: code unit by code unit\<close>
  "string_less [] [] = False"
| "string_less [] (y # ys) = True"
| "string_less (x # xs) [] = False"
| "string_less (x # xs) (y # ys) =
     ((of_char x :: nat) < of_char y \<or> (x = y \<and> string_less xs ys))"

definition string_cmp :: "string \<Rightarrow> string \<Rightarrow> int" where
  "string_cmp a b = (if string_less a b then - 1 else if string_less b a then 1 else 0)"

fun set_add :: "'a list \<Rightarrow> 'a \<Rightarrow> 'a list" where
  \<comment> \<open>\<open>Set.add\<close> on a set kept in insertion order\<close>
  "set_add xs x = (if x \<in> set xs then xs else xs @ [x])"

definition getAllTags :: "BlogPost list \<Rightarrow> string list" where
  "getAllTags ps =
     sort_by string_cmp (foldl (\<lambda>acc post. foldl set_add acc (tags post)) [] ps)"

section \<open>src/app/blog/[slug]/page.tsx: the content renderer\<close>

text \<open>
  The elements that \<open>renderContent\<close> pushes, each with its React key: \<open>Pre\<close> carries the
  class name of its \<open>code\<close> child and the text of the block, a heading its text child, \<open>Paragraph\<close>
  the string given to \<open>dangerouslySetInnerHTML\<close>.
\<close>

datatype key = Index nat | Code nat | CodeEnd

datatype element =
    Pre key string string
  | H1 key string
  | H2 key string
  | H3 key string
  | Separator key
  | Paragraph key string

record render_state =
  elements :: "element list"
  currentCodeBlock :: "string list"
  inCodeBlock :: bool
  codeLanguage :: string

definition escapeHtml :: "string \<Rightarrow> string" where
  "escapeHtml unsafe =
     replace_char_all (CHR 0x27) ''&#039;''
       (replace_char_all (CHR 0x22) ''&quot;''
         (replace_char_all CHR ''>'' ''&gt;''
           (replace_char_all CHR ''<'' ''&lt;''
             (replace_char_all CHR ''&'' ''&amp;'' unsafe))))"

text \<open>
  The two regular expressions \<open>/\*\*(.+?)\*\*/g\<close> and \<open>/`(.+?)`/g\<close> have the shape
  delimiter, lazy non-empty group, delimiter. The dot matches every code unit but a line
  terminator. \<open>lazy_group d s\<close> matches \<open>(.+?)\<close> and the closing delimiter at the
  start of \<open>s\<close>: the shortest non-empty run of non-terminators that the delimiter
  follows; it yields the group and the text after the delimiter. \<open>replace_marked\<close> is
  the global replace by \<open>op $1 cl\<close>: it tries every start from the left, and resumes
  after a match.
\<close>

definition is_line_terminator :: "char \<Rightarrow> bool" where
  "is_line_terminator c = (c = CHR 0x0A \<or> c = CHR 0x0D)"

fun lazy_group :: "string \<Rightarrow> string \<Rightarrow> (string \<times> string) option" where
  "lazy_group d [] = None"
| "lazy_group d (c # cs) =
     (if is_line_terminator c then None
      else if prefix d cs then Some ([c], drop (length d) cs)
      else (case lazy_group d cs of
              None \<Rightarrow> None
            | Some (g, r) \<Rightarrow> Some (c # g, r)))"

function replace_marked :: "string \<Rightarrow> string \<Rightarrow> string \<Rightarrow> string \<Rightarrow> string" where
  "replace_marked d op cl [] = []"
| "replace_marked d op cl (c # cs) =
     (if prefix d (c # cs) then
        (case lazy_group d (drop (length d) (c # cs)) of
           Some (g, r) \<Rightarrow> op @ g @ cl @ replace_marked d op cl r
         | None \<Rightarrow> c # replace_marked d op cl cs)
      else c # replace_marked d op cl cs)"
  by pat_completeness auto
termination
proof (relation "measure (\<lambda>(d, op, cl, s). length s)")
  fix d op cl :: string and c cs x2 x y
  assume m: "lazy_group d (drop (length d) (c # cs)) = Some x2" "(x, y) = x2"
  have shorter: "lazy_group d s = Some (g, r) \<Longrightarrow> length r < length s" for s g r
    by (induction s arbitrary: g r) (auto split: if_splits option.splits)
  from m have "length y < length (drop (length d) (c # cs))"
    using shorter [of "drop (length d) (c # cs)" x y] by simp
  then show "((d, op, cl, y), d, op, cl, c # cs) \<in> measure (\<lambda>(d, op, cl, s). length s)"
    by simp
qed simp_all

definition strong_open :: string where "strong_open = ''<strong>''"
definition strong_close :: string where "strong_close = ''</strong>''"
definition code_open :: string where
  "code_open = ''<code class='' @ [CHR 0x22] @ ''bg-muted px-1.5 py-0.5 rounded text-sm'' @ [CHR 0x22] @ ''>''"
definition code_close :: string where "code_close = ''</code>''"

definition bold :: "string \<Rightarrow> string" where
  \<comment> \<open>\<open>.replace(/\*\*(.+?)\*\*/g, '<strong>$1</strong>')\<close>\<close>
  "bold s = replace_marked ''**'' strong_open strong_close s"

definition inline_code :: "string \<Rightarrow> string" where
  \<comment> \<open>\<open>.replace(/`(.+?)`/g, '<code class="...">$1</code>')\<close>\<close>
  "inline_code s = replace_marked ''`'' code_open code_close s"

definition fence :: string where "fence = ''```''"

definition code_class :: "string \<Rightarrow> string" where
  \<comment> \<open>the template literal \<open>language-${codeLanguage} text-sm\<close>\<close>
  "code_class lang = ''language-'' @ lang @ '' text-sm''"

definition code_block :: "key \<Rightarrow> render_state \<Rightarrow> element" where
  "code_block k st = Pre k (code_class (codeLanguage st)) (join [CHR 0x0A] (currentCodeBlock st))"

definition push :: "element \<Rightarrow> render_state \<Rightarrow> render_state" where
  "push e st = st\<lparr>elements := elements st @ [e]\<rparr>"

definition process_line :: "render_state \<Rightarrow> nat \<Rightarrow> string \<Rightarrow> render_state" where
  \<comment> \<open>the body of \<open>lines.forEach((line, index) => ...)\<close>\<close>
  "process_line st index line =
     (if prefix fence line then
        (if \<not> inCodeBlock st then
           st\<lparr>inCodeBlock := True, codeLanguage := trim (replace fence '''' line)\<rparr>
         else
           (push (code_block (Code index) st) st)
             \<lparr>currentCodeBlock := [], inCodeBlock := False, codeLanguage := ''''\<rparr>)
      else if inCodeBlock st then st\<lparr>currentCodeBlock := currentCodeBlock st @ [line]\<rparr>
      else if prefix ''# '' line then
        push (H1 (Index index) (escapeHtml (replace ''# '' '''' line))) st
      else if prefix ''## '' line then
        push (H2 (Index index) (escapeHtml (replace ''## '' '''' line))) st
      else if prefix ''### '' line then
        push (H3 (Index index) (escapeHtml (replace ''### '' '''' line))) st
      else if prefix ''---'' line then push (Separator (Index index)) st
      else if trim line = '''' then st
      else push (Paragraph (Index index) (inline_code (bold (escapeHtml line)))) st)"

fun forEach :: "render_state \<Rightarrow> nat \<Rightarrow> string list \<Rightarrow> render_state" where
  "forEach st index [] = st"
| "forEach st index (line # rest) = forEach (process_line st index line) (Suc index) rest"

definition init_state :: render_state where
  "init_state = \<lparr>elements = [], currentCodeBlock = [], inCodeBlock = False, codeLanguage = ''''\<rparr>"

definition content_lines :: "string \<Rightarrow> string list" where
  "content_lines text = split (CHR 0x0A) (trim text)"

definition finish :: "render_state \<Rightarrow> element list" where
  \<comment> \<open>the pending code block when the content ends without a closing fence\<close>
  "finish st =
     (if inCodeBlock st \<and> length (currentCodeBlock st) > 0
      then elements (push (code_block CodeEnd st) st)
      else elements st)"

definition renderContent :: "string \<Rightarrow> element list" where
  "renderContent text = finish (forEach init_state 0 (content_lines text))"

section \<open>src/unnamed/part\_001: the other copy of the renderer\<close>

definition process_line_1 :: "render_state \<Rightarrow> nat \<Rightarrow> string \<Rightarrow> render_state" where
  "process_line_1 st index line =
     (if prefix fence line then
        (if \<not> inCodeBlock st then
           st\<lparr>inCodeBlock := True, codeLanguage := replace fence '''' line\<rparr>
         else
           (push (code_block (Code index) st) st)
             \<lparr>currentCodeBlock := [], inCodeBlock := False, codeLanguage := ''''\<rparr>)
      else if inCodeBlock st then st\<lparr>currentCodeBlock := currentCodeBlock st @ [line]\<rparr>
      else if prefix ''# '' line then push (H1 (Index index) (replace ''# '' '''' line)) st
      else if prefix ''## '' line then push (H2 (Index index) (replace ''## '' '''' line)) st
      else if prefix ''### '' line then push (H3 (Index index) (replace ''### '' '''' line)) st
      else if prefix ''---'' line then push (Separator (Index index)) st
      else if trim line = '''' then st
      else push (Paragraph (Index index) (inline_code (bold line))) st)"

fun forEach_1 :: "render_state \<Rightarrow> nat \<Rightarrow> string list \<Rightarrow> render_state" where
  "forEach_1 st index [] = st"
| "forEach_1 st index (line # rest) = forEach_1 (process_line_1 st index line) (Suc index) rest"

definition renderContent_1 :: "string \<Rightarrow> element list" where
  "renderContent_1 text = elements (forEach_1 init_state 0 (content_lines text))"

section \<open>src/app/blog/[slug]/page.tsx: metadata and page\<close>

record OpenGraph =
  og_title :: string
  og_description :: string
  og_type :: string
  publishedTime :: string
  og_authors :: "string list"
  og_images :: "string list"

record Twitter =
  card :: string
  tw_title :: string
  tw_description :: string
  tw_images :: "string list"

text \<open>The \<open>Metadata\<close> object; an absent property is \<open>None\<close>.\<close>

record Metadata =
  md_title :: string
  md_description :: "string option"
  md_keywords :: "string list option"
  md_authors :: "string list option"
  openGraph :: "OpenGraph option"
  twitter :: "Twitter option"

definition post_images :: "BlogPost \<Rightarrow> string list" where
  \<comment> \<open>\<open>post.image ? [post.image] : []\<close>: the empty string is falsy\<close>
  "post_images post = (case image post of None \<Rightarrow> [] | Some i \<Rightarrow> if i = '''' then [] else [i])"

definition generateMetadata :: "BlogPost list \<Rightarrow> string \<Rightarrow> Metadata" where
  "generateMetadata ps s =
     (case getPostBySlug ps s of
        None \<Rightarrow>
          \<lparr> md_title = ''Post Not Found'', md_description = None, md_keywords = None,
            md_authors = None, openGraph = None, twitter = None \<rparr>
      | Some post \<Rightarrow>
          \<lparr> md_title = title post,
            md_description = Some (description post),
            md_keywords = Some (keywords post),
            md_authors = Some [author post],
            openGraph = Some \<lparr> og_title = title post, og_description = description post,
              og_type = ''article'', publishedTime = date post, og_authors = [author post],
              og_images = post_images post \<rparr>,
            twitter = Some \<lparr> card = ''summary_large_image'', tw_title = title post,
              tw_description = description post, tw_images = post_images post \<rparr> \<rparr>)"

text \<open>
  \<open>notFound()\<close> throws, Next.js then renders the not-found page: \<open>BlogPostPage\<close> yields
  either that error or the article page. Of the page, the model keeps the post shown in
  the header and the structured data, the rendered article body and the related posts.
  The call of \<open>getAllPosts\<close> for the related posts sorts the array, so the page function
  yields the new array as well.
\<close>

datatype page_error = NEXT_NOT_FOUND

record article_page =
  page_post :: BlogPost
  article :: "element list"
  related :: "BlogPost list"

definition BlogPostPage ::
  "BlogPost list \<Rightarrow> string \<Rightarrow> (page_error + article_page) \<times> BlogPost list" where
  "BlogPostPage ps s =
     (case getPostBySlug ps s of
        None \<Rightarrow> (Inl NEXT_NOT_FOUND, ps)
      | Some post \<Rightarrow>
          (let body = renderContent (content post);
               (all_posts, ps') = getAllPosts ps
           in (Inr \<lparr> page_post = post, article = body,
                     related = take 2 (filter (\<lambda>p. slug p \<noteq> slug post) all_posts) \<rparr>,
               ps')))"

text \<open>A call of one of the four helpers of blog-data.ts, and its effect on the array.\<close>

datatype helper_call =
    GetAllPosts
  | GetPostBySlug string
  | GetPostsByTag string
  | GetAllTags

fun call_effect :: "BlogPost list \<Rightarrow> helper_call \<Rightarrow> BlogPost list" where
  "call_effect ps GetAllPosts = snd (getAllPosts ps)"
| "call_effect ps (GetPostBySlug s) = ps"
| "call_effect ps (GetPostsByTag t) = ps"
| "call_effect ps GetAllTags = ps"

section \<open>JSON values and JSON.stringify\<close>

text \<open>
  An object literal is a \<open>JObject\<close>, its properties in source order. \<open>JSON_stringify\<close> is
  \<open>JSON.stringify\<close> without indentation, on the values that occur here: strings, integral
  numbers, arrays and objects.
\<close>

datatype json =
    JString string
  | JNumber int
  | JArray "json list"
  | JObject "(string \<times> json) list"

fun jget :: "string \<Rightarrow> json \<Rightarrow> json option" where
  \<comment> \<open>property access \<open>obj.key\<close>; \<open>None\<close> is \<open>undefined\<close>\<close>
  "jget k (JObject kvs) = map_of kvs k"
| "jget k other = None"

definition hex :: "nat \<Rightarrow> char" where
  "hex n = ''0123456789abcdef'' ! (n mod 16)"

definition quote_char :: "char \<Rightarrow> string" where
  "quote_char c =
     (let n = (of_char c :: nat) in
      if c = CHR 0x22 then [CHR 0x5C, CHR 0x22]
      else if c = CHR 0x5C then [CHR 0x5C, CHR 0x5C]
      else if n = 8 then [CHR 0x5C, CHR ''b'']
      else if n = 12 then [CHR 0x5C, CHR ''f'']
      else if n = 10 then [CHR 0x5C, CHR ''n'']
      else if n = 13 then [CHR 0x5C, CHR ''r'']
      else if n = 9 then [CHR 0x5C, CHR ''t'']
      else if n < 32 then [CHR 0x5C, CHR ''u'', CHR ''0'', CHR ''0'', hex (n div 16), hex n]
      else [c])"

definition quote :: "string \<Rightarrow> string" where
  "quote s = [CHR 0x22] @ concat (map quote_char s) @ [CHR 0x22]"

fun show_nat :: "nat \<Rightarrow> string" where
  "show_nat n =
     (if n < 10 then [char_of (48 + n)] else show_nat (n div 10) @ [char_of (48 + n mod 10)])"

definition show_int :: "int \<Rightarrow> string" where
  "show_int i = (if i < 0 then ''-'' @ show_nat (nat (- i)) else show_nat (nat i))"

fun JSON_stringify :: "json \<Rightarrow> string" where
  "JSON_stringify (JString s) = quote s"
| "JSON_stringify (JNumber i) = show_int i"
| "JSON_stringify (JArray xs) = ''['' @ join '','' (map JSON_stringify xs) @ '']''"
| "JSON_stringify (JObject kvs) =
     ''{'' @ join '','' (map (\<lambda>(k, v). quote k @ '':'' @ JSON_stringify v) kvs) @ ''}''"

section \<open>src/lib/structured-data.ts and its configuration\<close>

record SiteConfig =
  site_name :: string
  site_title :: string
  site_description :: string
  shortDescription :: string
  site_url :: string
  ogImage :: string
  email :: string
  phone :: string
  location :: string
  links :: "(string \<times> string) list"
  jobTitle :: string
  company :: string
  companyUrl :: string
  yearsOfExperience :: string
  skills :: "string list"
  site_keywords :: "string list"
  verification :: "(string \<times> string) list"

record Project =
  project_name :: string
  project_description :: string
  project_url :: string
  project_image :: string
  technologies :: "string list"
  datePublished :: string

record Faq =
  question :: string
  answer :: string

definition siteConfig :: SiteConfig where
  "siteConfig =
   \<lparr> site_name = ''Debmalya Biswas'',
     site_title = ''Debmalya Biswas | Frontend & Full Stack Engineer'',
     site_description = ''Frontend & Full Stack Engineer specializing in React, Next.js, and TypeScript. Building performant, beautiful web experiences at SaffronStays. View my portfolio, projects, and get in touch.'',
     shortDescription = ''Frontend & Full Stack Engineer crafting performant web experiences with React, Next.js & TypeScript.'',
     site_url = ''https://www.debmalya.in/'',
     ogImage = ''/og-image.png'',
     email = ''viperbale.db@gmail.com'',
     phone = ''+91-XXXXXXXXXX'',
     location = ''India'',
     links = [(''github'', ''https://github.com/debmalya''),
              (''linkedin'', ''https://linkedin.com/in/debmalya''),
              (''twitter'', ''https://twitter.com/debmalya'')],
     jobTitle = ''SDE-1'',
     company = ''SaffronStays'',
     companyUrl = ''https://saffronsstays.com'',
     yearsOfExperience = ''2+'',
     skills = [''React'', ''Next.js'', ''TypeScript'', ''JavaScript'', ''Node.js'', ''Tailwind CSS'',
       ''PostgreSQL'', ''MongoDB'', ''GraphQL'', ''Docker'', ''AWS'', ''Performance Optimization'',
       ''Frontend Architecture'', ''Full Stack Development'', ''Web Development'',
       ''UI/UX Engineering''],
     site_keywords = [''Frontend Engineer'', ''Full Stack Developer'', ''React Developer'',
       ''Next.js Developer'', ''TypeScript Developer'', ''JavaScript Developer'', ''Web Developer'',
       ''Software Engineer'', ''Debmalya Biswas'', ''Debmalya Biswas Portfolio'',
       ''Debmalya Biswas Developer'', ''SaffronStays Developer'', ''Frontend Developer India'',
       ''React Developer India'', ''React Expert'', ''Next.js Expert'', ''TypeScript Expert'',
       ''Node.js Developer'', ''Tailwind CSS Developer'', ''Performance Optimization Expert'',
       ''Frontend Architecture'', ''Hire Frontend Developer'', ''Hire React Developer'',
       ''Freelance Web Developer'', ''Web Application Development'', ''SaaS Development'',
       ''E-commerce Development'', ''Senior Frontend Engineer Portfolio'',
       ''Full Stack Developer Portfolio'', ''React TypeScript Developer'',
       ''Modern Web Development'', ''Scalable Web Applications''],
     verification = [(''google'', ''''), (''bing'', ''''), (''yandex'', ''''), (''pinterest'', '''')] \<rparr>"

definition projectsData :: "Project list" where
  "projectsData =
   [ \<lparr> project_name = ''Coinhub'',
       project_description = ''A React based Web App where you can see the live price of various cryptos and also the previous trend of the price of that specific Crypto built using ReactJs, ChakraUI, CoinGecko API, and FramerMotion.'',
       project_url = ''https://coinhub-db.vercel.app/'',
       project_image = ''/real-time-analytics-dashboard-charts-graphs.jpg'',
       technologies = [''React'', ''ChakraUI'', ''CoinGecko API'', ''FramerMotion''],
       datePublished = ''2023-01-01'' \<rparr>,
     \<lparr> project_name = ''theEngineerGuy'',
       project_description = ''A Blogging Website where you can post your own blog, edit and delete and view other user's blog. A custom Dashboard(CMS) has been made for all the users. Built using NextJs, TypeScript, MongoDB for database, Next-Auth for authentication with Custom Credentials Provider and Google Auth.'',
       project_url = ''https://theengineerguy.vercel.app/'',
       project_image = ''/ai-content-generation-interface.jpg'',
       technologies = [''Next.js'', ''TypeScript'', ''MongoDB'', ''Next-Auth'', ''SCSS'', ''REST API''],
       datePublished = ''2023-06-01'' \<rparr>,
     \<lparr> project_name = ''Apna Dukan'',
       project_description = ''A full-stack e-commerce web application made using the MERN Stack. Features include User Registration and Authentication, Filters, Functional Search Bar, Cart, Wishlist, Payment Gateway(RazorPay), User Dashboard, Admin Dashboard, Protected Routes.'',
       project_url = ''https://apnadukan.vercel.app/'',
       project_image = ''/ecommerce-store-product-catalog.jpg'',
       technologies = [''React'', ''MongoDB'', ''Node.js'', ''Express'', ''RazorPay''],
       datePublished = ''2023-09-01'' \<rparr> ]"

definition faqData :: "Faq list" where
  "faqData =
   [ \<lparr> question = ''What technologies does Debmalya Biswas specialize in?'',
       answer = ''Debmalya specializes in React, Next.js, TypeScript, Node.js, and modern frontend technologies. He has extensive experience with performance optimization, frontend architecture, and full-stack development.'' \<rparr>,
     \<lparr> question = ''Is Debmalya available for freelance projects?'',
       answer = ''Yes, Debmalya is currently open for freelance projects and full-time opportunities. You can reach out through the contact form on this website.'' \<rparr>,
     \<lparr> question = ''What kind of projects has Debmalya worked on?'',
       answer = ''Debmalya has worked on diverse projects including property management platforms, real-time analytics dashboards, component libraries, e-commerce platforms, and AI-powered applications.'' \<rparr>,
     \<lparr> question = ''Where is Debmalya Biswas currently working?'',
       answer = ''Debmalya currently works as an SDE-1 at SaffronStays, where he focuses on full-stack development, API migrations, and performance optimization.'' \<rparr> ]"

text \<open>
  The schema constants are computed once, when the module is loaded, from the
  configuration \<open>cfg\<close>, \<open>projects\<close>, \<open>faqs\<close> and from \<open>today\<close>, the value of
  \<open>new Date().toISOString().split("T")[0]\<close> at that moment.
\<close>

definition person_ref :: "SiteConfig \<Rightarrow> json" where
  \<comment> \<open>the object literal \<open>{ "@id": `${siteConfig.url}/#person` }\<close>\<close>
  "person_ref cfg = JObject [(''@id'', JString (site_url cfg @ ''/#person''))]"

definition personSchema :: "SiteConfig \<Rightarrow> json" where
  "personSchema cfg = JObject
    [ (''@context'', JString ''https://schema.org''),
      (''@type'', JString ''Person''),
      (''@id'', JString (site_url cfg @ ''/#person'')),
      (''name'', JString (site_name cfg)),
      (''givenName'', JString ''Debmalya''),
      (''familyName'', JString ''Biswas''),
      (''url'', JString (site_url cfg)),
      (''image'', JObject
         [ (''@type'', JString ''ImageObject''),
           (''url'', JString (site_url cfg @ ''/og-image.png'')),
           (''width'', JNumber 1200),
           (''height'', JNumber 630) ]),
      (''email'', JString (''mailto:'' @ email cfg)),
      (''jobTitle'', JString (jobTitle cfg)),
      (''description'', JString (site_description cfg)),
      (''sameAs'', JArray (map (JString \<circ> snd) (links cfg))),
      (''worksFor'', JObject
         [ (''@type'', JString ''Organization''),
           (''name'', JString (company cfg)),
           (''url'', JString (companyUrl cfg)) ]),
      (''alumniOf'', JObject
         [ (''@type'', JString ''EducationalOrganization''),
           (''name'', JString ''University'') ]),
      (''knowsAbout'', JArray (map JString (skills cfg))),
      (''nationality'', JObject
         [ (''@type'', JString ''Country''),
           (''name'', JString ''India'') ]) ]"

definition websiteSchema :: "SiteConfig \<Rightarrow> json" where
  "websiteSchema cfg = JObject
    [ (''@context'', JString ''https://schema.org''),
      (''@type'', JString ''WebSite''),
      (''@id'', JString (site_url cfg @ ''/#website'')),
      (''url'', JString (site_url cfg)),
      (''name'', JString (site_title cfg)),
      (''description'', JString (site_description cfg)),
      (''publisher'', person_ref cfg),
      (''inLanguage'', JString ''en-US''),
      (''potentialAction'', JObject
         [ (''@type'', JString ''SearchAction''),
           (''target'', JObject
              [ (''@type'', JString ''EntryPoint''),
                (''urlTemplate'', JString (site_url cfg @ ''/?s={search_term_string}'')) ]),
           (''query-input'', JString ''required name=search_term_string'') ]) ]"

definition webPageSchema :: "SiteConfig \<Rightarrow> string \<Rightarrow> json" where
  "webPageSchema cfg today = JObject
    [ (''@context'', JString ''https://schema.org''),
      (''@type'', JString ''WebPage''),
      (''@id'', JString (site_url cfg @ ''/#webpage'')),
      (''url'', JString (site_url cfg)),
      (''name'', JString (site_title cfg)),
      (''description'', JString (site_description cfg)),
      (''isPartOf'', JObject [(''@id'', JString (site_url cfg @ ''/#website''))]),
      (''about'', person_ref cfg),
      (''primaryImageOfPage'', JObject
         [ (''@type'', JString ''ImageObject''),
           (''url'', JString (site_url cfg @ ''/og-image.png'')) ]),
      (''datePublished'', JString ''2024-01-01''),
      (''dateModified'', JString today),
      (''inLanguage'', JString ''en-US'') ]"

definition profilePageSchema :: "SiteConfig \<Rightarrow> string \<Rightarrow> json" where
  "profilePageSchema cfg today = JObject
    [ (''@context'', JString ''https://schema.org''),
      (''@type'', JString ''ProfilePage''),
      (''@id'', JString (site_url cfg @ ''/#profilepage'')),
      (''url'', JString (site_url cfg)),
      (''name'', JString (site_name cfg @ '' - Portfolio'')),
      (''mainEntity'', person_ref cfg),
      (''dateCreated'', JString ''2024-01-01''),
      (''dateModified'', JString today) ]"

definition project_item :: "SiteConfig \<Rightarrow> Project \<Rightarrow> nat \<Rightarrow> json" where
  \<comment> \<open>the callback of \<open>projectsData.map((project, index) => ...)\<close>\<close>
  "project_item cfg project index = JObject
    [ (''@type'', JString ''ListItem''),
      (''position'', JNumber (int index + 1)),
      (''item'', JObject
         [ (''@type'', JString ''CreativeWork''),
           (''name'', JString (project_name project)),
           (''description'', JString (project_description project)),
           (''url'', JString (project_url project)),
           (''image'', JString (site_url cfg @ project_image project)),
           (''datePublished'', JString (datePublished project)),
           (''author'', person_ref cfg),
           (''keywords'', JString (join '', '' (technologies project))) ]) ]"

definition projectsListSchema :: "SiteConfig \<Rightarrow> Project list \<Rightarrow> json" where
  "projectsListSchema cfg projects = JObject
    [ (''@context'', JString ''https://schema.org''),
      (''@type'', JString ''ItemList''),
      (''@id'', JString (site_url cfg @ ''/#projects'')),
      (''name'', JString ''Featured Projects''),
      (''description'', JString ''Portfolio projects showcasing web development expertise''),
      (''numberOfItems'', JNumber (int (length projects))),
      (''itemListElement'',
         JArray (map (\<lambda>(project, index). project_item cfg project index)
                     (zip projects [0..<length projects]))) ]"

definition faq_item :: "Faq \<Rightarrow> json" where
  \<comment> \<open>the callback of \<open>faqData.map((faq) => ...)\<close>\<close>
  "faq_item faq = JObject
    [ (''@type'', JString ''Question''),
      (''name'', JString (question faq)),
      (''acceptedAnswer'', JObject
         [ (''@type'', JString ''Answer''),
           (''text'', JString (answer faq)) ]) ]"

definition faqSchema :: "SiteConfig \<Rightarrow> Faq list \<Rightarrow> json" where
  "faqSchema cfg faqs = JObject
    [ (''@context'', JString ''https://schema.org''),
      (''@type'', JString ''FAQPage''),
      (''@id'', JString (site_url cfg @ ''/#faq'')),
      (''mainEntity'', JArray (map faq_item faqs)) ]"

definition breadcrumbSchema :: "SiteConfig \<Rightarrow> json" where
  "breadcrumbSchema cfg = JObject
    [ (''@context'', JString ''https://schema.org''),
      (''@type'', JString ''BreadcrumbList''),
      (''itemListElement'', JArray
         [ JObject
             [ (''@type'', JString ''ListItem''),
               (''position'', JNumber 1),
               (''name'', JString ''Home''),
               (''item'', JString (site_url cfg)) ] ]) ]"

definition service_offer :: "string \<Rightarrow> string \<Rightarrow> json" where
  \<comment> \<open>one entry of the offer catalogue: the three literals differ in name and description\<close>
  "service_offer n d = JObject
    [ (''@type'', JString ''Offer''),
      (''itemOffered'', JObject
         [ (''@type'', JString ''Service''),
           (''name'', JString n),
           (''description'', JString d) ]) ]"

definition serviceSchema :: "SiteConfig \<Rightarrow> json" where
  "serviceSchema cfg = JObject
    [ (''@context'', JString ''https://schema.org''),
      (''@type'', JString ''Service''),
      (''@id'', JString (site_url cfg @ ''/#service'')),
      (''name'', JString ''Web Development Services''),
      (''description'', JString ''Professional frontend and full-stack web development services specializing in React, Next.js, and TypeScript.''),
      (''provider'', person_ref cfg),
      (''serviceType'', JString ''Web Development''),
      (''areaServed'', JObject
         [ (''@type'', JString ''Country''),
           (''name'', JString ''Worldwide'') ]),
      (''hasOfferCatalog'', JObject
         [ (''@type'', JString ''OfferCatalog''),
           (''name'', JString ''Web Development Services''),
           (''itemListElement'', JArray
              [ service_offer ''Frontend Development''
                  ''Modern, responsive frontend development using React and Next.js'',
                service_offer ''Full Stack Development''
                  ''End-to-end web application development with Node.js backend'',
                service_offer ''Performance Optimization''
                  ''Web performance audits and optimization for better user experience'' ]) ]) ]"

definition combinedSchema :: "SiteConfig \<Rightarrow> Project list \<Rightarrow> Faq list \<Rightarrow> string \<Rightarrow> json list" where
  "combinedSchema cfg projects faqs today =
    [ personSchema cfg,
      websiteSchema cfg,
      webPageSchema cfg today,
      profilePageSchema cfg today,
      projectsListSchema cfg projects,
      faqSchema cfg faqs,
      breadcrumbSchema cfg,
      serviceSchema cfg ]"

definition generateSchemaScript :: "json list \<Rightarrow> string" where
  \<comment> \<open>\<open>combined\<close> is the module constant \<open>combinedSchema\<close>\<close>
  "generateSchemaScript combined = JSON_stringify (JArray combined)"

section \<open>Notions used in the statements\<close>

text \<open>
  \<open>newer_eq a b\<close>: both dates are valid and the timestamp of \<open>a\<close> is at least that of
  \<open>b\<close>.
\<close>

definition newer_eq :: "BlogPost \<Rightarrow> BlogPost \<Rightarrow> bool" where
  "newer_eq a b =
     (case (getTime (date a), getTime (date b)) of
        (Some ta, Some tb) \<Rightarrow> tb \<le> ta
      | _ \<Rightarrow> False)"

text \<open>
  The four tags that the renderer itself writes into the HTML of a paragraph.
\<close>

definition safe_tags :: "string list" where
  "safe_tags = [strong_open, strong_close, code_open, code_close]"

text \<open>
  \<open>lt_ok s\<close>: every suffix of \<open>s\<close> that starts with \<open><\<close> starts with one of the four tags.
\<close>

fun lt_ok :: "string \<Rightarrow> bool" where
  "lt_ok [] = True"
| "lt_ok (c # cs) = ((c = CHR ''<'' \<longrightarrow> (\<exists>t\<in>set safe_tags. prefix t (c # cs))) \<and> lt_ok cs)"

text \<open>
  \<open>outside_clean st\<close>: outside a code fence no line is pending and no language is set.
\<close>

definition outside_clean :: "render_state \<Rightarrow> bool" where
  "outside_clean st = (\<not> inCodeBlock st \<longrightarrow> currentCodeBlock st = [] \<and> codeLanguage st = [])"

text \<open>The five characters that \<open>escapeHtml\<close> replaces.\<close>

definition html_special :: "char \<Rightarrow> bool" where
  "html_special c = (c = CHR ''&'' \<or> c = CHR ''<'' \<or> c = CHR ''>'' \<or> c = CHR 0x22 \<or> c = CHR 0x27)"

text \<open>
  The lines that the renderer meets outside a code fence, fence lines apart, and the
  fence lines that open a fence; \<open>inside\<close> tells whether the first line is inside a
  fence.
\<close>

fun outside_lines :: "bool \<Rightarrow> string list \<Rightarrow> string list" where
  "outside_lines inside [] = []"
| "outside_lines inside (l # ls) =
     (if prefix fence l then outside_lines (\<not> inside) ls
      else if inside then outside_lines inside ls
      else l # outside_lines inside ls)"

fun opening_fences :: "bool \<Rightarrow> string list \<Rightarrow> string list" where
  "opening_fences inside [] = []"
| "opening_fences inside (l # ls) =
     (if prefix fence l then (if inside then [] else [l]) @ opening_fences (\<not> inside) ls
      else opening_fences inside ls)"

text \<open>
  The element, if any, that the claim gives a line outside a code fence that does not
  start with \<open>```\<close>, by the prefix of the line.
\<close>

definition classify_line :: "nat \<Rightarrow> string \<Rightarrow> element list" where
  "classify_line k l =
     (if prefix ''# '' l then [H1 (Index k) (escapeHtml (drop 2 l))]
      else if prefix ''## '' l then [H2 (Index k) (escapeHtml (drop 3 l))]
      else if prefix ''### '' l then [H3 (Index k) (escapeHtml (drop 4 l))]
      else if prefix ''---'' l then [Separator (Index k)]
      else if trim l = [] then []
      else [Paragraph (Index k) (inline_code (bold (escapeHtml l)))])"

section \<open>Properties of the helpers of blog-data.ts\<close>

lemma getTime_dates:
  "getTime ''2024-12-01'' = Some 1733011200000"
  "getTime ''2024-11-28'' = Some 1732752000000"
  "getTime ''2024-11-25'' = Some 1732492800000"
  "getTime ''2024-11-22'' = Some 1732233600000"
  "getTime ''2024-11-20'' = Some 1732060800000"
  "getTime ''2024-11-18'' = Some 1731888000000"
  "getTime ''2024-11-15'' = Some 1731628800000"
  by code_simp+

lemma blogPosts_dates:
  "map date (blogPosts body) = [''2024-12-01'', ''2024-11-28'', ''2024-11-25'', ''2024-11-22'',
     ''2024-11-20'', ''2024-11-18'', ''2024-11-15'']"
  by (simp add: blogPosts_def)

lemma blogPosts_slugs: "distinct (map slug (blogPosts body))"
  by (simp add: blogPosts_def)

lemma char_lower_idem: "char_lower (char_lower c) = char_lower c"
  unfolding char_lower_def Let_def
  by (auto simp: of_char_of)

lemma toLowerCase_idem: "toLowerCase (toLowerCase s) = toLowerCase s"
  by (simp add: toLowerCase_def char_lower_idem)

lemma insert_by_mset: "mset (insert_by cmp x xs) = add_mset x (mset xs)"
  by (induction xs) auto

lemma sort_by_mset: "mset (sort_by cmp xs) = mset xs"
  by (induction xs) (auto simp: sort_by_def insert_by_mset)

lemma insert_by_set: "set (insert_by cmp x xs) = insert x (set xs)"
  by (induction xs) auto

lemma sort_by_set: "set (sort_by cmp xs) = set xs"
  by (induction xs) (auto simp: sort_by_def insert_by_set)

lemma sort_by_Cons: "sort_by cmp (x # xs) = insert_by cmp x (sort_by cmp xs)"
  by (simp add: sort_by_def)

lemma insert_by_head:
  "sorted_wrt (\<lambda>a b. cmp a b \<le> 0) (x # xs) \<Longrightarrow> insert_by cmp x xs = x # xs"
  by (cases xs) auto

lemma sort_by_sorted_id:
  "sorted_wrt (\<lambda>a b. cmp a b \<le> 0) xs \<Longrightarrow> sort_by cmp xs = xs"
proof (induction xs)
  case Nil
  show ?case by (simp add: sort_by_def)
next
  case (Cons x xs)
  from Cons.prems have "sorted_wrt (\<lambda>a b. cmp a b \<le> 0) xs" by simp
  then have "sort_by cmp xs = xs" by (rule Cons.IH)
  then show ?case using insert_by_head [OF Cons.prems] by (simp add: sort_by_Cons)
qed

lemma date_cmp_valid:
  "getTime (date a) \<noteq> None \<Longrightarrow> getTime (date b) \<noteq> None \<Longrightarrow>
   (date_cmp a b \<le> 0) = newer_eq a b"
  by (auto simp: date_cmp_def newer_eq_def)

lemma newer_eq_trans: "newer_eq a b \<Longrightarrow> newer_eq b c \<Longrightarrow> newer_eq a c"
  by (auto simp: newer_eq_def split: option.splits)

lemma newer_eq_total:
  "getTime (date a) \<noteq> None \<Longrightarrow> getTime (date b) \<noteq> None \<Longrightarrow> \<not> newer_eq a b \<Longrightarrow> newer_eq b a"
  by (auto simp: newer_eq_def)

lemma insert_by_sorted:
  assumes "getTime (date x) \<noteq> None" "\<forall>p\<in>set xs. getTime (date p) \<noteq> None"
    and "sorted_wrt newer_eq xs"
  shows "sorted_wrt newer_eq (insert_by date_cmp x xs)"
  using assms
proof (induction xs)
  case Nil
  show ?case by simp
next
  case (Cons y ys)
  show ?case
  proof (cases "date_cmp x y \<le> 0")
    case True
    with Cons.prems have xy: "newer_eq x y" by (simp add: date_cmp_valid)
    have "\<forall>z\<in>set ys. newer_eq x z"
      using xy Cons.prems(3) by (auto intro: newer_eq_trans)
    with xy True Cons.prems(3) show ?thesis by simp
  next
    case False
    with Cons.prems have "\<not> newer_eq x y" by (simp add: date_cmp_valid)
    with Cons.prems have yx: "newer_eq y x" by (simp add: newer_eq_total)
    have "sorted_wrt newer_eq (insert_by date_cmp x ys)"
      using Cons.IH Cons.prems by simp
    with yx False Cons.prems(3) show ?thesis by (auto simp: insert_by_set)
  qed
qed

lemma sort_by_sorted:
  "\<forall>p\<in>set ps. getTime (date p) \<noteq> None \<Longrightarrow> sorted_wrt newer_eq (sort_by date_cmp ps)"
proof (induction ps)
  case Nil
  show ?case by (simp add: sort_by_def)
next
  case (Cons p ps)
  then show ?case
    by (simp add: sort_by_Cons insert_by_sorted sort_by_set)
qed

lemma blogPosts_valid: "\<forall>p\<in>set (blogPosts body). getTime (date p) \<noteq> None"
proof -
  have "\<forall>d\<in>set (map date (blogPosts body)). getTime d \<noteq> None"
    unfolding blogPosts_dates by (simp add: getTime_dates)
  then show ?thesis by simp
qed

lemma blogPosts_sorted: "sorted_wrt (\<lambda>a b. date_cmp a b \<le> 0) (blogPosts body)"
proof -
  have "sorted_wrt (\<lambda>a b. (case (getTime b, getTime a) of (Some tb, Some ta) \<Rightarrow> tb - ta | _ \<Rightarrow> 0) \<le> 0)
          (map date (blogPosts body))"
    unfolding blogPosts_dates by (simp add: getTime_dates)
  then show ?thesis by (simp add: sorted_wrt_map date_cmp_def)
qed

lemma getAllPosts_blogPosts: "getAllPosts (blogPosts body) = (blogPosts body, blogPosts body)"
  by (simp add: getAllPosts_def Let_def sort_by_sorted_id [OF blogPosts_sorted])

lemma call_effect_blogPosts: "call_effect (blogPosts body) c = blogPosts body"
  by (cases c) (simp_all add: getAllPosts_blogPosts)

text \<open>
  The sort of \<open>getAllPosts\<close> is in place: on the same posts in the opposite order the call
  leaves the array reordered.
\<close>

lemma getAllPosts_sorts_in_place:
  "snd (getAllPosts (rev (blogPosts body))) = blogPosts body"
  by (simp add: getAllPosts_def Let_def blogPosts_def sort_by_def date_cmp_def getTime_dates)

text \<open>
  Claim C6. No sequence of calls of \<open>getAllPosts\<close>, \<open>getPostBySlug\<close>, \<open>getPostsByTag\<close> and
  \<open>getAllTags\<close> changes the array \<open>blogPosts\<close>: after the calls it holds the same elements
  in the same order, whatever the article bodies are. The in-place sort of \<open>getAllPosts\<close>
  finds the array already in descending order of date and leaves it as it is.
\<close>

theorem blogPosts_never_changes: "foldl call_effect (blogPosts body) calls = blogPosts body"
  by (induction calls) (simp_all add: call_effect_blogPosts)


lemma getAllPosts_fst: "fst (getAllPosts ps) = sort_by date_cmp ps"
  by (simp add: getAllPosts_def Let_def)

lemma sorted_adjacent:
  "sorted_wrt R xs \<Longrightarrow> Suc i < length xs \<Longrightarrow> R (xs ! i) (xs ! Suc i)"
  by (simp add: sorted_wrt_nth_less)

text \<open>
  Claim C9. \<open>getAllPosts\<close> returns a permutation of \<open>blogPosts\<close> in which every post is at
  least as new, by timestamp, as the post right after it. The same holds for every array
  whose dates are all valid.
\<close>

theorem getAllPosts_newest_first:
  "(mset (fst (getAllPosts (blogPosts body))) = mset (blogPosts body)
    \<and> (\<forall>i. Suc i < length (fst (getAllPosts (blogPosts body))) \<longrightarrow>
           newer_eq (fst (getAllPosts (blogPosts body)) ! i)
                    (fst (getAllPosts (blogPosts body)) ! Suc i)))
   \<and> ((\<forall>p\<in>set ps. getTime (date p) \<noteq> None) \<longrightarrow>
        mset (fst (getAllPosts ps)) = mset ps
        \<and> (\<forall>i. Suc i < length (fst (getAllPosts ps)) \<longrightarrow>
             newer_eq (fst (getAllPosts ps) ! i) (fst (getAllPosts ps) ! Suc i)))"
proof -
  have general: "mset (fst (getAllPosts qs)) = mset qs
      \<and> (\<forall>i. Suc i < length (fst (getAllPosts qs)) \<longrightarrow>
             newer_eq (fst (getAllPosts qs) ! i) (fst (getAllPosts qs) ! Suc i))"
    if valid: "\<forall>p\<in>set qs. getTime (date p) \<noteq> None" for qs
  proof -
    have "sorted_wrt newer_eq (fst (getAllPosts qs))"
      using sort_by_sorted [OF valid] by (simp add: getAllPosts_fst)
    then show ?thesis
      by (simp add: getAllPosts_fst sort_by_mset sorted_adjacent)
  qed
  show ?thesis
    using general [OF blogPosts_valid [of body]] general [of ps] by blast
qed

theorem getAllPosts_newest_first_witness:
  "None \<notin> set (map (getTime \<circ> date) (blogPosts (\<lambda>n. [])))
   \<and> Suc 0 < length (fst (getAllPosts (blogPosts (\<lambda>n. []))))
   \<and> mset (fst (getAllPosts (blogPosts (\<lambda>n. [])))) = mset (blogPosts (\<lambda>n. []))
   \<and> newer_eq (fst (getAllPosts (blogPosts (\<lambda>n. []))) ! 0) (fst (getAllPosts (blogPosts (\<lambda>n. []))) ! Suc 0)
   \<and> map slug (fst (getAllPosts (blogPosts (\<lambda>n. [])))) =
       [''building-modern-portfolio-website-nextjs'', ''mastering-react-hooks-frontend-development'',
        ''nextjs-14-app-router-complete-guide'', ''typescript-best-practices-react-developers'',
        ''web-performance-optimization-guide'', ''frontend-development-career-guide-2024'',
        ''react-performance-optimization-techniques'']"
proof -
  have v: "\<forall>p\<in>set (blogPosts (\<lambda>n. [])). getTime (date p) \<noteq> None"
    by (rule blogPosts_valid)
  have l: "Suc 0 < length (fst (getAllPosts (blogPosts (\<lambda>n. []))))"
    by (simp add: getAllPosts_blogPosts) (simp add: blogPosts_def)
  have s: "map slug (fst (getAllPosts (blogPosts (\<lambda>n. [])))) =
       [''building-modern-portfolio-website-nextjs'', ''mastering-react-hooks-frontend-development'',
        ''nextjs-14-app-router-complete-guide'', ''typescript-best-practices-react-developers'',
        ''web-performance-optimization-guide'', ''frontend-development-career-guide-2024'',
        ''react-performance-optimization-techniques'']"
    by (simp add: getAllPosts_blogPosts) (simp add: blogPosts_def)
  from v have v': "None \<notin> set (map (getTime \<circ> date) (blogPosts (\<lambda>n. [])))"
    by auto
  from getAllPosts_newest_first [of "\<lambda>n. []" "blogPosts (\<lambda>n. [])"] v v' l s
  show ?thesis by blast
qed

lemma find_None_iff: "(find Q xs = None) = (\<forall>x\<in>set xs. \<not> Q x)"
  by (induction xs) auto

lemma find_Some_first:
  "find Q xs = Some x \<Longrightarrow> \<exists>i<length xs. xs ! i = x \<and> Q x \<and> (\<forall>j<i. \<not> Q (xs ! j))"
  by (auto simp: find_Some_iff)

lemma find_distinct:
  "distinct (map f xs) \<Longrightarrow> x \<in> set xs \<Longrightarrow> find (\<lambda>y. f y = f x) xs = Some x"
  by (induction xs) (auto simp: image_iff)

text \<open>
  Claim C3. For a slug that no element of the array has, \<open>getPostBySlug\<close> returns
  undefined, \<open>BlogPostPage\<close> ends in \<open>notFound()\<close> and \<open>generateMetadata\<close> returns the
  metadata whose only property is the title "Post Not Found". For a slug that some element
  has, \<open>getPostBySlug\<close> returns the first element with that slug, the page renders the
  article of that element, and the metadata carry its title. When the slugs are distinct,
  as they are in \<open>blogPosts\<close>, looking up the slug of an element returns that element.
\<close>

theorem slug_lookup:
  "((\<forall>p\<in>set ps. slug p \<noteq> s) \<longrightarrow>
      getPostBySlug ps s = None
      \<and> BlogPostPage ps s = (Inl NEXT_NOT_FOUND, ps)
      \<and> generateMetadata ps s =
          \<lparr> md_title = ''Post Not Found'', md_description = None, md_keywords = None,
            md_authors = None, openGraph = None, twitter = None \<rparr>)
   \<and> ((\<exists>p\<in>set ps. slug p = s) \<longrightarrow>
      (\<exists>q i. getPostBySlug ps s = Some q \<and> i < length ps \<and> ps ! i = q \<and> slug q = s
         \<and> (\<forall>j<i. slug (ps ! j) \<noteq> s)
         \<and> (\<exists>pg. fst (BlogPostPage ps s) = Inr pg \<and> page_post pg = q
               \<and> article pg = renderContent (content q))
         \<and> md_title (generateMetadata ps s) = title q))
   \<and> (distinct (map slug ps) \<longrightarrow> (\<forall>p\<in>set ps. getPostBySlug ps (slug p) = Some p))"
proof (intro conjI impI)
  assume none: "\<forall>p\<in>set ps. slug p \<noteq> s"
  then show g: "getPostBySlug ps s = None"
    by (simp add: getPostBySlug_def find_None_iff)
  from g show "BlogPostPage ps s = (Inl NEXT_NOT_FOUND, ps)"
    by (simp add: BlogPostPage_def)
  from g show "generateMetadata ps s =
          \<lparr> md_title = ''Post Not Found'', md_description = None, md_keywords = None,
            md_authors = None, openGraph = None, twitter = None \<rparr>"
    by (simp add: generateMetadata_def)
next
  assume "\<exists>p\<in>set ps. slug p = s"
  then have "find (\<lambda>post. slug post = s) ps \<noteq> None"
    by (simp add: find_None_iff)
  then obtain q where q: "find (\<lambda>post. slug post = s) ps = Some q" by blast
  from find_Some_first [OF q] obtain i where
    i: "i < length ps" "ps ! i = q" "slug q = s" "\<forall>j<i. slug (ps ! j) \<noteq> s" by blast
  have g: "getPostBySlug ps s = Some q" using q by (simp add: getPostBySlug_def)
  have pg: "\<exists>pg. fst (BlogPostPage ps s) = Inr pg \<and> page_post pg = q
               \<and> article pg = renderContent (content q)"
    using g by (simp add: BlogPostPage_def Let_def split: prod.splits)
  have md: "md_title (generateMetadata ps s) = title q"
    using g by (simp add: generateMetadata_def)
  from g i pg md
  show "\<exists>q i. getPostBySlug ps s = Some q \<and> i < length ps \<and> ps ! i = q \<and> slug q = s
         \<and> (\<forall>j<i. slug (ps ! j) \<noteq> s)
         \<and> (\<exists>pg. fst (BlogPostPage ps s) = Inr pg \<and> page_post pg = q
               \<and> article pg = renderContent (content q))
         \<and> md_title (generateMetadata ps s) = title q"
    by blast
next
  assume "distinct (map slug ps)"
  then show "\<forall>p\<in>set ps. getPostBySlug ps (slug p) = Some p"
    by (simp add: getPostBySlug_def find_distinct)
qed

text \<open>
  Claim C10. \<open>getPostsByTag\<close> returns, in their original order, exactly the posts that
  have a tag whose lower-casing equals the lower-casing of the argument, and lower-casing
  the argument does not change the result.
\<close>

theorem tag_filter:
  "getPostsByTag ps t =
     filter (\<lambda>post. \<exists>x\<in>set (tags post). toLowerCase x = toLowerCase t) ps
   \<and> getPostsByTag ps (toLowerCase t) = getPostsByTag ps t"
  by (simp add: getPostsByTag_def list_ex_iff toLowerCase_idem)


theorem tag_filter_witness:
  "(\<exists>x\<in>set (tags (blogPosts (\<lambda>n. []) ! 2)). toLowerCase x = toLowerCase ''APP Router'')
   \<and> map slug (getPostsByTag (blogPosts (\<lambda>n. [])) ''APP Router'') =
        [''nextjs-14-app-router-complete-guide'']
   \<and> getPostsByTag (blogPosts (\<lambda>n. [])) ''app router'' =
        getPostsByTag (blogPosts (\<lambda>n. [])) ''APP Router''"
proof -
  have low: "toLowerCase ''APP Router'' = ''app router''"
    by code_simp
  have "map slug (filter (\<lambda>post. \<exists>x\<in>set (tags post). toLowerCase x = ''app router'')
          (blogPosts (\<lambda>n. []))) = [''nextjs-14-app-router-complete-guide'']"
    by code_simp
  moreover have "\<exists>x\<in>set (tags (blogPosts (\<lambda>n. []) ! 2)). toLowerCase x = ''app router''"
    by code_simp
  ultimately show ?thesis
    using tag_filter [of "blogPosts (\<lambda>n. [])" "''APP Router''"] by (simp add: low)
qed

theorem slug_lookup_witness:
  "''no-such-post'' \<notin> set (map slug (blogPosts (\<lambda>n. [])))
   \<and> getPostBySlug (blogPosts (\<lambda>n. [])) ''no-such-post'' = None
   \<and> BlogPostPage (blogPosts (\<lambda>n. [])) ''no-such-post'' = (Inl NEXT_NOT_FOUND, blogPosts (\<lambda>n. []))
   \<and> md_title (generateMetadata (blogPosts (\<lambda>n. [])) ''no-such-post'') = ''Post Not Found''
   \<and> (\<exists>p\<in>set (blogPosts (\<lambda>n. [])). slug p = ''web-performance-optimization-guide'')
   \<and> distinct (map slug (blogPosts (\<lambda>n. [])))
   \<and> getPostBySlug (blogPosts (\<lambda>n. [])) ''web-performance-optimization-guide'' =
        Some (blogPosts (\<lambda>n. []) ! 4)
   \<and> (\<exists>pg. fst (BlogPostPage (blogPosts (\<lambda>n. [])) ''web-performance-optimization-guide'') = Inr pg
         \<and> page_post pg = blogPosts (\<lambda>n. []) ! 4)"
proof -
  have absent: "\<forall>p\<in>set (blogPosts (\<lambda>n. [])). slug p \<noteq> ''no-such-post''"
    by (simp add: blogPosts_def)
  have elem: "blogPosts (\<lambda>n. []) ! 4 \<in> set (blogPosts (\<lambda>n. []))"
    by (simp add: blogPosts_def)
  have sl: "slug (blogPosts (\<lambda>n. []) ! 4) = ''web-performance-optimization-guide''"
    by (simp add: blogPosts_def)
  have present: "\<exists>p\<in>set (blogPosts (\<lambda>n. [])). slug p = ''web-performance-optimization-guide''"
    using elem sl by blast
  have dist: "distinct (map slug (blogPosts (\<lambda>n. [])))"
    by (rule blogPosts_slugs)
  note a = slug_lookup [of "blogPosts (\<lambda>n. [])" "''no-such-post''"]
  note b = slug_lookup [of "blogPosts (\<lambda>n. [])" "''web-performance-optimization-guide''"]
  from a absent have n1: "getPostBySlug (blogPosts (\<lambda>n. [])) ''no-such-post'' = None"
    and n2: "BlogPostPage (blogPosts (\<lambda>n. [])) ''no-such-post'' = (Inl NEXT_NOT_FOUND, blogPosts (\<lambda>n. []))"
    and n3: "md_title (generateMetadata (blogPosts (\<lambda>n. [])) ''no-such-post'') = ''Post Not Found''"
    by simp_all
  from b dist elem sl
  have f: "getPostBySlug (blogPosts (\<lambda>n. [])) ''web-performance-optimization-guide'' =
        Some (blogPosts (\<lambda>n. []) ! 4)"
    by metis
  from b present f
  have pg: "\<exists>pg. fst (BlogPostPage (blogPosts (\<lambda>n. [])) ''web-performance-optimization-guide'') = Inr pg
         \<and> page_post pg = blogPosts (\<lambda>n. []) ! 4"
    by auto
  from absent have absent': "''no-such-post'' \<notin> set (map slug (blogPosts (\<lambda>n. [])))"
    by auto
  from absent' n1 n2 n3 present dist f pg show ?thesis by blast
qed

section \<open>Properties of the renderer\<close>

subsection \<open>Lines, fences and the loop\<close>

lemma replace_prefix: "prefix pat s \<Longrightarrow> replace pat rep s = rep @ drop (length pat) s"
  by (cases s) auto

lemma trim_empty_iff: "(trim s = []) = (\<forall>c\<in>set s. is_space c)"
proof -
  have "(trim s = []) = (\<forall>c\<in>set (dropWhile is_space s). is_space c)"
    by (simp add: trim_def dropWhile_eq_Nil_conv)
  also have "\<dots> = (dropWhile is_space s = [])"
  proof (cases "dropWhile is_space s")
    case Nil
    show ?thesis unfolding Nil by simp
  next
    case (Cons c cs)
    then have "\<not> is_space c" using hd_dropWhile [of is_space s] by simp
    with Cons show ?thesis by auto
  qed
  also have "\<dots> = (\<forall>c\<in>set s. is_space c)"
    by (rule dropWhile_eq_Nil_conv)
  finally show ?thesis .
qed

lemma forEach_append:
  "forEach st i (xs @ ys) = forEach (forEach st i xs) (i + length xs) ys"
  by (induction xs arbitrary: st i) simp_all

lemma forEach_foldl:
  "forEach st i ls = foldl (\<lambda>s (k, l). process_line s k l) st (zip [i..<i + length ls] ls)"
proof (induction ls arbitrary: st i)
  case Nil
  show ?case by simp
next
  case (Cons l ls)
  have "[i..<i + length (l # ls)] = i # [Suc i..<Suc i + length ls]"
    by (simp add: upt_rec)
  then show ?case using Cons.IH [of "process_line st i l" "Suc i"] by simp
qed

lemma process_line_toggle:
  "inCodeBlock (process_line st i l) = (inCodeBlock st \<noteq> prefix fence l)"
  by (simp add: process_line_def push_def)

lemma outside_fence_cases:
  "\<not> inCodeBlock st \<Longrightarrow>
   (prefix ''```'' line \<longrightarrow>
      process_line st index line = st\<lparr>inCodeBlock := True, codeLanguage := trim (drop 3 line)\<rparr>)
   \<and> (prefix ''# '' line \<longrightarrow>
      process_line st index line = push (H1 (Index index) (escapeHtml (drop 2 line))) st)
   \<and> (prefix ''## '' line \<longrightarrow>
      process_line st index line = push (H2 (Index index) (escapeHtml (drop 3 line))) st)
   \<and> (prefix ''### '' line \<longrightarrow>
      process_line st index line = push (H3 (Index index) (escapeHtml (drop 4 line))) st)
   \<and> (prefix ''---'' line \<longrightarrow> process_line st index line = push (Separator (Index index)) st)
   \<and> (trim line = [] \<longrightarrow> process_line st index line = st)
   \<and> (\<not> prefix ''```'' line \<and> \<not> prefix ''# '' line \<and> \<not> prefix ''## '' line
        \<and> \<not> prefix ''### '' line \<and> \<not> prefix ''---'' line \<and> trim line \<noteq> [] \<longrightarrow>
      process_line st index line =
        push (Paragraph (Index index) (inline_code (bold (escapeHtml line)))) st)
   \<and> length (elements (process_line st index line)) =
        length (elements st) + (if prefix ''```'' line \<or> trim line = [] then 0 else 1)"
proof -
  assume out: "\<not> inCodeBlock st"
  have fence: "prefix ''```'' line \<Longrightarrow>
      process_line st index line = st\<lparr>inCodeBlock := True, codeLanguage := trim (drop 3 line)\<rparr>"
    using out by (simp add: process_line_def fence_def replace_prefix numeral_3_eq_3 del: prefix_code)
  have h1: "prefix ''# '' line \<Longrightarrow>
      process_line st index line = push (H1 (Index index) (escapeHtml (drop 2 line))) st"
    using out by (auto simp: process_line_def fence_def replace_prefix elim!: prefixE)
  have h2: "prefix ''## '' line \<Longrightarrow>
      process_line st index line = push (H2 (Index index) (escapeHtml (drop 3 line))) st"
    using out by (auto simp: process_line_def fence_def replace_prefix elim!: prefixE)
  have h3: "prefix ''### '' line \<Longrightarrow>
      process_line st index line = push (H3 (Index index) (escapeHtml (drop 4 line))) st"
    using out by (auto simp: process_line_def fence_def replace_prefix elim!: prefixE)
  have sep: "prefix ''---'' line \<Longrightarrow> process_line st index line = push (Separator (Index index)) st"
    using out by (auto simp: process_line_def fence_def elim!: prefixE)
  have blank: "trim line = [] \<Longrightarrow> process_line st index line = st"
    using out
    by (auto simp: process_line_def fence_def trim_empty_iff is_space_def elim!: prefixE)
  have para: "\<not> prefix ''```'' line \<and> \<not> prefix ''# '' line \<and> \<not> prefix ''## '' line
        \<and> \<not> prefix ''### '' line \<and> \<not> prefix ''---'' line \<and> trim line \<noteq> [] \<Longrightarrow>
      process_line st index line =
        push (Paragraph (Index index) (inline_code (bold (escapeHtml line)))) st"
    using out by (simp add: process_line_def fence_def del: prefix_code)
  have len: "length (elements (process_line st index line)) =
        length (elements st) + (if prefix ''```'' line \<or> trim line = [] then 0 else 1)"
  proof (cases "prefix ''```'' line \<or> trim line = []")
    case True
    then show ?thesis using fence blank by auto
  next
    case False
    then show ?thesis using out
      by (simp add: process_line_def fence_def push_def del: prefix_code)
  qed
  from fence h1 h2 h3 sep blank para len show ?thesis by blast
qed

lemma process_line_clean: "outside_clean st \<Longrightarrow> outside_clean (process_line st i l)"
  by (simp add: outside_clean_def process_line_def push_def)

lemma forEach_clean: "outside_clean st \<Longrightarrow> outside_clean (forEach st i ls)"
  by (induction ls arbitrary: st i) (simp_all add: process_line_clean)

lemma init_clean: "outside_clean init_state"
  by (simp add: outside_clean_def init_state_def)

lemma forEach_inside:
  "inCodeBlock st \<Longrightarrow> \<forall>l\<in>set body. \<not> prefix fence l \<Longrightarrow>
   forEach st i body = st\<lparr>currentCodeBlock := currentCodeBlock st @ body\<rparr>"
proof (induction body arbitrary: st i)
  case Nil
  show ?case by simp
next
  case (Cons l ls)
  from Cons.prems have step: "process_line st i l = st\<lparr>currentCodeBlock := currentCodeBlock st @ [l]\<rparr>"
    by (simp add: process_line_def)
  have "forEach (process_line st i l) (Suc i) ls =
        (process_line st i l)\<lparr>currentCodeBlock := currentCodeBlock (process_line st i l) @ ls\<rparr>"
    using Cons.prems by (intro Cons.IH) (simp_all add: step)
  then show ?case by (simp add: step)
qed

lemma open_fence:
  "\<not> inCodeBlock st \<Longrightarrow> prefix fence l \<Longrightarrow>
   process_line st i l = st\<lparr>inCodeBlock := True, codeLanguage := trim (drop 3 l)\<rparr>"
  by (simp add: process_line_def replace_prefix) (simp add: fence_def numeral_3_eq_3)



lemma join_Cons: "ys \<noteq> [] \<Longrightarrow> join sep (x # ys) = x @ sep @ join sep ys"
  by (cases ys) simp_all

lemma split_acc_nonempty: "split_acc sep cur s \<noteq> []"
  by (induction s arbitrary: cur) auto

lemma join_split_acc: "join [sep] (split_acc sep cur s) = rev cur @ s"
proof (induction s arbitrary: cur)
  case Nil
  show ?case by simp
next
  case (Cons c cs)
  show ?case
  proof (cases "c = sep")
    case True
    then show ?thesis
      using Cons.IH [of "[]"] by (simp add: join_Cons split_acc_nonempty)
  next
    case False
    then show ?thesis using Cons.IH [of "c # cur"] by simp
  qed
qed

lemma split_acc_no_sep:
  "l \<in> set (split_acc sep cur s) \<Longrightarrow> sep \<notin> set cur \<Longrightarrow> sep \<notin> set l"
proof (induction s arbitrary: cur)
  case Nil
  then show ?case by simp
next
  case (Cons c cs)
  show ?case
  proof (cases "c = sep")
    case True
    with Cons.prems have "l = rev cur \<or> l \<in> set (split_acc sep [] cs)" by simp
    then show ?thesis using Cons.IH [of "[]"] Cons.prems(2) by auto
  next
    case False
    with Cons.prems have "l \<in> set (split_acc sep (c # cur) cs)" by simp
    then show ?thesis using Cons.IH [of "c # cur"] Cons.prems(2) False by auto
  qed
qed

lemma content_lines_join: "join [CHR 0x0A] (content_lines text) = trim text"
  by (simp add: content_lines_def split_def join_split_acc)

lemma content_lines_no_newline: "l \<in> set (content_lines text) \<Longrightarrow> CHR 0x0A \<notin> set l"
  using split_acc_no_sep [of l "CHR 0x0A" "[]" "trim text"]
  by (simp add: content_lines_def split_def)

lemma trim_decomp:
  "\<exists>a b. s = a @ trim s @ b \<and> (\<forall>c\<in>set a. is_space c) \<and> (\<forall>c\<in>set b. is_space c)"
proof -
  let ?d = "dropWhile is_space s"
  let ?a = "takeWhile is_space s"
  let ?b = "rev (takeWhile is_space (rev ?d))"
  have d: "?d = trim s @ ?b"
    unfolding trim_def by (metis rev_append rev_rev_ident takeWhile_dropWhile_id)
  have "s = ?a @ ?d" by simp
  with d have "s = ?a @ trim s @ ?b" by simp
  moreover have "\<forall>c\<in>set ?a. is_space c" by (auto dest: set_takeWhileD)
  moreover have "\<forall>c\<in>set ?b. is_space c" by (auto dest: set_takeWhileD)
  ultimately show ?thesis by blast
qed

lemma trim_ends:
  "trim s \<noteq> [] \<Longrightarrow> \<not> is_space (hd (trim s)) \<and> \<not> is_space (last (trim s))"
proof -
  assume ne: "trim s \<noteq> []"
  let ?d = "dropWhile is_space s"
  let ?e = "dropWhile is_space (rev ?d)"
  have t: "trim s = rev ?e" by (simp add: trim_def)
  with ne have e: "?e \<noteq> []" by simp
  then have he: "\<not> is_space (hd ?e)" by (rule hd_dropWhile)
  have l: "last (trim s) = hd ?e" using e by (simp add: t last_rev)
  have d: "?d = trim s @ rev (takeWhile is_space (rev ?d))"
    unfolding trim_def by (metis rev_append rev_rev_ident takeWhile_dropWhile_id)
  with ne have dne: "?d \<noteq> []" by (metis append_is_Nil_conv)
  then have "\<not> is_space (hd ?d)" by (rule hd_dropWhile)
  moreover have "hd ?d = hd (trim s)" using d ne by (metis hd_append2)
  ultimately show ?thesis using he l by simp
qed

lemma process_line_classify:
  "\<not> inCodeBlock st \<Longrightarrow> \<not> prefix fence l \<Longrightarrow>
   process_line st i l = st\<lparr>elements := elements st @ classify_line i l\<rparr>"
  by (simp add: process_line_def classify_line_def push_def replace_prefix eval_nat_numeral del: prefix_code)

lemma forEach_no_fence:
  "\<not> inCodeBlock st \<Longrightarrow> \<forall>l\<in>set ls. \<not> prefix fence l \<Longrightarrow>
   forEach st i ls =
     st\<lparr>elements := elements st @
          concat (map (\<lambda>(k, l). classify_line k l) (zip [i..<i + length ls] ls))\<rparr>"
proof (induction ls arbitrary: st i)
  case Nil
  show ?case by simp
next
  case (Cons l ls)
  let ?st = "st\<lparr>elements := elements st @ classify_line i l\<rparr>"
  have step: "process_line st i l = ?st"
    using Cons.prems by (simp add: process_line_classify)
  have up: "[i..<Suc (i + length ls)] = i # [Suc i..<Suc (i + length ls)]"
    by (rule upt_conv_Cons) simp
  have "forEach ?st (Suc i) ls =
     ?st\<lparr>elements := elements ?st @
          concat (map (\<lambda>(k, l). classify_line k l) (zip [Suc i..<Suc i + length ls] ls))\<rparr>"
    using Cons.prems by (intro Cons.IH) simp_all
  then show ?case by (simp add: step up del: upt_Suc)
qed

lemma renderContent_no_fence:
  assumes "\<forall>l\<in>set (content_lines text). \<not> prefix ''```'' l"
  shows "renderContent text =
           concat (map (\<lambda>(k, l). classify_line k l)
                       (zip [0..<length (content_lines text)] (content_lines text)))"
proof -
  have nf: "\<forall>l\<in>set (content_lines text). \<not> prefix fence l"
    using assms by (simp add: fence_def)
  have out: "\<not> inCodeBlock init_state" by (simp add: init_state_def)
  show ?thesis
    unfolding renderContent_def forEach_no_fence [OF out nf, of 0]
    by (simp add: finish_def init_state_def)
qed

text \<open>
  Claim C4. \<open>renderContent\<close> runs \<open>process_line\<close> over the lines of the trimmed content in
  order, each with its index. The lines are those of the trimmed content: joined by
  newlines they give the content without the white space at its two ends, and no line
  holds a newline. A line toggles the fence state exactly when it starts with \<open>```\<close>.
  Outside a code fence a line is classified by its prefix: a line starting with \<open>```\<close>
  opens a fence and pushes nothing; a line starting with \<open># \<close>, \<open>## \<close> or \<open>### \<close> pushes an
  h1, h2 or h3 whose text is the escaped rest of the line after that prefix; a line
  starting with \<open>---\<close> pushes a separator; a line whose trim is empty pushes nothing;
  every other line pushes one paragraph. The prefixes exclude one another, so the order
  of the tests does not matter, and every line but a fence line and a blank line adds
  exactly one element. For a content without a fence line, \<open>renderContent\<close> returns the
  elements of its lines, in order.
\<close>

theorem line_classification:
  "(\<not> inCodeBlock st \<longrightarrow>
      (prefix ''```'' line \<longrightarrow>
         process_line st index line = st\<lparr>inCodeBlock := True, codeLanguage := trim (drop 3 line)\<rparr>)
      \<and> (prefix ''# '' line \<longrightarrow>
         process_line st index line = push (H1 (Index index) (escapeHtml (drop 2 line))) st)
      \<and> (prefix ''## '' line \<longrightarrow>
         process_line st index line = push (H2 (Index index) (escapeHtml (drop 3 line))) st)
      \<and> (prefix ''### '' line \<longrightarrow>
         process_line st index line = push (H3 (Index index) (escapeHtml (drop 4 line))) st)
      \<and> (prefix ''---'' line \<longrightarrow> process_line st index line = push (Separator (Index index)) st)
      \<and> (trim line = [] \<longrightarrow> process_line st index line = st)
      \<and> (\<not> prefix ''```'' line \<and> \<not> prefix ''# '' line \<and> \<not> prefix ''## '' line
           \<and> \<not> prefix ''### '' line \<and> \<not> prefix ''---'' line \<and> trim line \<noteq> [] \<longrightarrow>
         process_line st index line =
           push (Paragraph (Index index) (inline_code (bold (escapeHtml line)))) st)
      \<and> length (elements (process_line st index line)) =
           length (elements st) + (if prefix ''```'' line \<or> trim line = [] then 0 else 1))
   \<and> inCodeBlock (process_line st index line) = (inCodeBlock st \<noteq> prefix ''```'' line)
   \<and> renderContent text =
        finish (foldl (\<lambda>s (k, l). process_line s k l) init_state
                  (zip [0..<length (content_lines text)] (content_lines text)))
   \<and> join [CHR 0x0A] (content_lines text) = trim text
   \<and> (\<forall>l\<in>set (content_lines text). CHR 0x0A \<notin> set l)
   \<and> (\<exists>a b. text = a @ trim text @ b \<and> (\<forall>c\<in>set a. is_space c) \<and> (\<forall>c\<in>set b. is_space c))
   \<and> (trim text \<noteq> [] \<longrightarrow> \<not> is_space (hd (trim text)) \<and> \<not> is_space (last (trim text)))
   \<and> ((\<forall>l\<in>set (content_lines text). \<not> prefix ''```'' l) \<longrightarrow>
        renderContent text =
          concat (map (\<lambda>(k, l). classify_line k l)
                      (zip [0..<length (content_lines text)] (content_lines text))))"
proof -
  have toggle: "inCodeBlock (process_line st index line) = (inCodeBlock st \<noteq> prefix ''```'' line)"
    using process_line_toggle [of st index line] by (simp add: fence_def)
  have loop: "renderContent text =
        finish (foldl (\<lambda>s (k, l). process_line s k l) init_state
                  (zip [0..<length (content_lines text)] (content_lines text)))"
    by (simp add: renderContent_def forEach_foldl)
  have lines: "join [CHR 0x0A] (content_lines text) = trim text"
    by (rule content_lines_join)
  have nl: "\<forall>l\<in>set (content_lines text). CHR 0x0A \<notin> set l"
    using content_lines_no_newline by blast
  have td: "\<exists>a b. text = a @ trim text @ b \<and> (\<forall>c\<in>set a. is_space c) \<and> (\<forall>c\<in>set b. is_space c)"
    by (rule trim_decomp)
  have te: "trim text \<noteq> [] \<longrightarrow> \<not> is_space (hd (trim text)) \<and> \<not> is_space (last (trim text))"
    using trim_ends by blast
  have nf: "(\<forall>l\<in>set (content_lines text). \<not> prefix ''```'' l) \<longrightarrow>
        renderContent text =
          concat (map (\<lambda>(k, l). classify_line k l)
                      (zip [0..<length (content_lines text)] (content_lines text)))"
    using renderContent_no_fence by blast
  from outside_fence_cases [of st line index] toggle loop lines nl td te nf
  show ?thesis by blast
qed


text \<open>
  Claim C8. When the content ends inside a fence, that is, its lines are \<open>pre\<close>, an
  opening fence line and the lines \<open>body\<close> without a fence line, then \<open>renderContent\<close>
  returns the elements of \<open>pre\<close> followed by one final code block holding \<open>body\<close> when
  \<open>body\<close> is not empty, and by nothing when it is empty.
\<close>

theorem unclosed_fence:
  assumes lines: "content_lines text = pre @ opening # body"
    and out: "\<not> inCodeBlock (forEach init_state 0 pre)"
    and op: "prefix fence opening"
    and body: "\<forall>l\<in>set body. \<not> prefix fence l"
  shows "renderContent text =
           elements (forEach init_state 0 pre) @
           (if body = [] then []
            else [Pre CodeEnd (code_class (trim (drop 3 opening))) (join [CHR 0x0A] body)])"
proof -
  let ?st = "forEach init_state 0 pre"
  let ?st1 = "?st\<lparr>inCodeBlock := True, codeLanguage := trim (drop 3 opening)\<rparr>"
  have clean: "outside_clean ?st" by (rule forEach_clean) (rule init_clean)
  have e: "currentCodeBlock ?st = []"
    using out clean by (simp add: outside_clean_def)
  have "forEach init_state 0 (pre @ opening # body) = forEach ?st1 (Suc (length pre)) body"
    by (simp add: forEach_append open_fence [OF out op])
  also have "\<dots> = ?st1\<lparr>currentCodeBlock := currentCodeBlock ?st1 @ body\<rparr>"
    by (rule forEach_inside) (simp_all add: body)
  finally have "forEach init_state 0 (content_lines text) =
      ?st\<lparr>inCodeBlock := True, codeLanguage := trim (drop 3 opening), currentCodeBlock := body\<rparr>"
    using e by (simp add: lines)
  then show ?thesis
    by (simp add: renderContent_def finish_def push_def code_block_def)
qed

subsection \<open>The HTML of a paragraph\<close>

lemma replace_char_all_set:
  "x \<in> set (replace_char_all c rep s) \<Longrightarrow> x \<in> set rep \<or> (x \<in> set s \<and> x \<noteq> c)"
  by (auto simp: replace_char_all_def split: if_splits)

lemma escapeHtml_no_lt: "CHR ''<'' \<notin> set (escapeHtml s)"
proof
  assume a: "CHR ''<'' \<in> set (escapeHtml s)"
  from a have "CHR ''<'' \<in> set (replace_char_all (CHR 0x22) ''&quot;''
         (replace_char_all CHR ''>'' ''&gt;''
           (replace_char_all CHR ''<'' ''&lt;''
             (replace_char_all CHR ''&'' ''&amp;'' s))))"
    unfolding escapeHtml_def by (auto dest!: replace_char_all_set)
  then have "CHR ''<'' \<in> set (replace_char_all CHR ''>'' ''&gt;''
           (replace_char_all CHR ''<'' ''&lt;''
             (replace_char_all CHR ''&'' ''&amp;'' s)))"
    by (auto dest!: replace_char_all_set)
  then have "CHR ''<'' \<in> set (replace_char_all CHR ''<'' ''&lt;''
             (replace_char_all CHR ''&'' ''&amp;'' s))"
    by (auto dest!: replace_char_all_set)
  then show False
    by (auto dest!: replace_char_all_set)
qed

lemma lt_ok_nth:
  "lt_ok s = (\<forall>i<length s. s ! i = CHR ''<'' \<longrightarrow> (\<exists>t\<in>set safe_tags. prefix t (drop i s)))"
proof (induction s)
  case Nil
  show ?case by simp
next
  case (Cons c cs)
  have "(\<forall>i<length (c # cs). (c # cs) ! i = CHR ''<'' \<longrightarrow> (\<exists>t\<in>set safe_tags. prefix t (drop i (c # cs))))
      = ((c = CHR ''<'' \<longrightarrow> (\<exists>t\<in>set safe_tags. prefix t (c # cs)))
         \<and> (\<forall>j<length cs. cs ! j = CHR ''<'' \<longrightarrow> (\<exists>t\<in>set safe_tags. prefix t (drop j cs))))"
    by (auto simp: All_less_Suc2 simp del: prefix_code)
  then show ?case using Cons.IH by simp
qed

lemma lazy_group_decomp:
  "lazy_group d s = Some (g, r) \<Longrightarrow> s = g @ d @ r \<and> g \<noteq> []"
proof (induction s arbitrary: g r)
  case Nil
  then show ?case by simp
next
  case (Cons c cs)
  show ?case
  proof (cases "prefix d cs")
    case True
    then have "cs = d @ drop (length d) cs"
      by (metis append_eq_conv_conj prefixE)
    with Cons.prems True show ?thesis by (auto split: if_splits)
  next
    case False
    with Cons.prems obtain g' where g': "lazy_group d cs = Some (g', r)" "g = c # g'"
      by (auto split: if_splits option.splits)
    from Cons.IH [OF g'(1)] g'(2) show ?thesis by simp
  qed
qed

lemma replace_marked_skip:
  "dc \<notin> set u \<Longrightarrow> replace_marked (dc # d') op cl (u @ v) = u @ replace_marked (dc # d') op cl v"
  by (induction u) auto

lemma lt_ok_suffix: "lt_ok (a @ b) \<Longrightarrow> lt_ok b"
  by (induction a) auto

lemma lt_ok_append: "lt_ok a \<Longrightarrow> lt_ok b \<Longrightarrow> lt_ok (a @ b)"
proof (induction a)
  case Nil
  then show ?case by simp
next
  case (Cons c cs)
  have "prefix t (c # cs) \<Longrightarrow> prefix t (c # cs @ b)" for t
    by (metis append_Cons prefix_prefix)
  with Cons show ?case by (auto simp del: prefix_code)
qed

lemma prefix_cut:
  "prefix t (u @ x # v) \<Longrightarrow> x \<notin> set t \<Longrightarrow> prefix t u"
  by (auto simp: prefix_append prefix_Cons)

lemma lt_ok_prefix_part:
  "lt_ok (a @ x # b) \<Longrightarrow> \<forall>t\<in>set safe_tags. x \<notin> set t \<Longrightarrow> lt_ok a"
proof (induction a)
  case Nil
  show ?case by simp
next
  case (Cons c cs)
  have "prefix t (c # cs @ x # b) \<Longrightarrow> t \<in> set safe_tags \<Longrightarrow> prefix t (c # cs)" for t
    using prefix_cut [of t "c # cs" x b] Cons.prems(2) by simp
  with Cons show ?case by (auto simp del: prefix_code)
qed

lemma lt_ok_no_lt: "CHR ''<'' \<notin> set s \<Longrightarrow> lt_ok s"
  by (induction s) auto

lemma lt_ok_tags: "t \<in> set safe_tags \<Longrightarrow> lt_ok t"
  by (auto simp: safe_tags_def strong_open_def strong_close_def code_open_def code_close_def)


lemma replace_marked_lt_ok:
  assumes tags: "\<forall>t\<in>set safe_tags. dc \<notin> set t"
  shows "lt_ok s \<Longrightarrow> op \<in> set safe_tags \<Longrightarrow> cl \<in> set safe_tags \<Longrightarrow>
         lt_ok (replace_marked (dc # d') op cl s)"
proof (induction "dc # d'" op cl s rule: replace_marked.induct)
  case (1 op cl)
  show ?case by simp
next
  case (2 op cl c cs)
  let ?d = "dc # d'"
  have ok_cs: "lt_ok cs" using "2.prems" by simp
  show ?case
  proof (cases "prefix ?d (c # cs) \<and> lazy_group ?d (drop (length ?d) (c # cs)) \<noteq> None")
    case True
    then obtain g r where gr: "lazy_group ?d (drop (length ?d) (c # cs)) = Some (g, r)"
      by auto
    from True have whole: "c # cs = ?d @ drop (length ?d) (c # cs)"
      by (metis append_eq_conv_conj prefixE)
    from lazy_group_decomp [OF gr] have rest: "drop (length ?d) (c # cs) = g @ ?d @ r"
      by simp
    have "lt_ok (drop (length ?d) (c # cs))"
      using "2.prems" whole lt_ok_suffix by metis
    then have grd: "lt_ok (g @ dc # (d' @ r))" using rest by simp
    have ok_g: "lt_ok g" using lt_ok_prefix_part [OF grd tags] .
    have "lt_ok (?d @ r)" using grd lt_ok_suffix [of g "?d @ r"] by simp
    then have ok_r: "lt_ok r" using lt_ok_suffix [of ?d r] by simp
    have ih: "lt_ok (replace_marked ?d op cl r)"
      using "2.hyps"(2) [OF _ gr refl] True ok_r "2.prems"(2,3) by simp
    have "lt_ok (op @ g @ cl @ replace_marked ?d op cl r)"
      using "2.prems"(2,3) ok_g ih by (simp add: lt_ok_append lt_ok_tags)
    then show ?thesis using True gr by simp
  next
    case False
    then have eq: "replace_marked ?d op cl (c # cs) = c # replace_marked ?d op cl cs"
      by (auto split: option.splits)
    have ih: "lt_ok (replace_marked ?d op cl cs)"
    proof (cases "prefix ?d (c # cs)")
      case True
      with False have "lazy_group ?d (drop (length ?d) (c # cs)) = None" by blast
      from "2.hyps"(1) [OF True this] ok_cs "2.prems"(2,3) show ?thesis by simp
    next
      case False
      from "2.hyps"(3) [OF False] ok_cs "2.prems"(2,3) show ?thesis by simp
    qed
    have head: "\<exists>t\<in>set safe_tags. prefix t (c # replace_marked ?d op cl cs)" if c: "c = CHR ''<''"
    proof -
      from "2.prems"(1) c obtain t where t: "t \<in> set safe_tags" "prefix t (c # cs)" by auto
      then obtain v where v: "c # cs = t @ v" by (auto elim: prefixE)
      from t(1) have "t \<noteq> []"
        by (auto simp: safe_tags_def strong_open_def strong_close_def code_open_def code_close_def)
      with v obtain t' where t': "t = c # t'" "cs = t' @ v"
        by (cases t) auto
      from tags t(1) t'(1) have "dc \<notin> set t'" by auto
      then have "replace_marked ?d op cl cs = t' @ replace_marked ?d op cl v"
        unfolding t'(2) by (rule replace_marked_skip)
      then have "prefix t (c # replace_marked ?d op cl cs)"
        using t'(1) by simp
      with t(1) show ?thesis by blast
    qed
    show ?thesis unfolding eq using ih head by (simp del: prefix_code)
  qed
qed

lemma bold_delim: "\<forall>t\<in>set safe_tags. CHR ''*'' \<notin> set t"
  by (simp add: safe_tags_def strong_open_def strong_close_def code_open_def code_close_def)

lemma code_delim: "\<forall>t\<in>set safe_tags. CHR 0x60 \<notin> set t"
  by (simp add: safe_tags_def strong_open_def strong_close_def code_open_def code_close_def)

lemma paragraph_html_ok: "lt_ok (inline_code (bold (escapeHtml line)))"
proof -
  have "lt_ok (escapeHtml line)"
    by (rule lt_ok_no_lt) (rule escapeHtml_no_lt)
  then have "lt_ok (bold (escapeHtml line))"
    unfolding bold_def
    by (intro replace_marked_lt_ok bold_delim) (simp_all add: safe_tags_def)
  then show ?thesis
    unfolding inline_code_def
    by (intro replace_marked_lt_ok code_delim) (simp_all add: safe_tags_def)
qed

lemma process_line_paragraph:
  "Paragraph k h \<in> set (elements (process_line st i l)) \<Longrightarrow>
   Paragraph k h \<in> set (elements st) \<or> h = inline_code (bold (escapeHtml l))"
  by (auto simp: process_line_def push_def code_block_def split: if_splits)

lemma forEach_paragraph:
  "Paragraph k h \<in> set (elements (forEach st i ls)) \<Longrightarrow>
   Paragraph k h \<in> set (elements st) \<or> (\<exists>l\<in>set ls. h = inline_code (bold (escapeHtml l)))"
proof (induction ls arbitrary: st i)
  case Nil
  then show ?case by simp
next
  case (Cons l ls)
  from Cons.IH [of "process_line st i l" "Suc i"] Cons.prems
  have "Paragraph k h \<in> set (elements (process_line st i l))
        \<or> (\<exists>l\<in>set ls. h = inline_code (bold (escapeHtml l)))"
    by simp
  then show ?case using process_line_paragraph [of k h st i l] by auto
qed

lemma finish_paragraph:
  "Paragraph k h \<in> set (finish st) \<Longrightarrow> Paragraph k h \<in> set (elements st)"
  by (auto simp: finish_def push_def code_block_def split: if_splits)

text \<open>
  Claim C1. The HTML of every paragraph that \<open>renderContent\<close> returns is
  \<open>inline_code (bold (escapeHtml line))\<close> for a line of the content: the line is escaped
  first, the markers are replaced afterwards. In that HTML every \<open><\<close> is the first character
  of one of the four tags of \<open>safe_tags\<close>.
\<close>

theorem paragraph_html_safe:
  "Paragraph k html \<in> set (renderContent text) \<Longrightarrow>
   (\<exists>line\<in>set (content_lines text). html = inline_code (bold (escapeHtml line)))
   \<and> (\<forall>i<length html. html ! i = CHR ''<'' \<longrightarrow> (\<exists>t\<in>set safe_tags. prefix t (drop i html)))"
proof -
  assume "Paragraph k html \<in> set (renderContent text)"
  then have "Paragraph k html \<in> set (elements (forEach init_state 0 (content_lines text)))"
    unfolding renderContent_def by (rule finish_paragraph)
  from forEach_paragraph [OF this]
  obtain line where line: "line \<in> set (content_lines text)"
      "html = inline_code (bold (escapeHtml line))"
    by (auto simp: init_state_def)
  have "lt_ok html" unfolding line(2) by (rule paragraph_html_ok)
  then have "\<forall>i<length html. html ! i = CHR ''<'' \<longrightarrow> (\<exists>t\<in>set safe_tags. prefix t (drop i html))"
    by (simp only: lt_ok_nth)
  with line show ?thesis by blast
qed

subsection \<open>The two copies of the renderer\<close>

lemma replace_char_all_id: "c \<notin> set s \<Longrightarrow> replace_char_all c rep s = s"
  by (induction s) (auto simp: replace_char_all_def)

lemma escapeHtml_id: "\<forall>c\<in>set s. \<not> html_special c \<Longrightarrow> escapeHtml s = s"
proof -
  assume "\<forall>c\<in>set s. \<not> html_special c"
  then have "CHR ''&'' \<notin> set s" "CHR ''<'' \<notin> set s" "CHR ''>'' \<notin> set s"
      "CHR 0x22 \<notin> set s" "CHR 0x27 \<notin> set s"
    by (auto simp: html_special_def)
  then show ?thesis by (simp add: escapeHtml_def replace_char_all_id)
qed

lemma replace_set: "set (replace pat [] s) \<subseteq> set s"
proof (induction s)
  case Nil
  show ?case by simp
next
  case (Cons c cs)
  have "set (drop n (c # cs)) \<subseteq> set (c # cs)" for n by (rule set_drop_subset)
  with Cons show ?case by auto
qed

lemma forEach_parity:
  "inCodeBlock (forEach st i ls) = (inCodeBlock st \<noteq> odd (length (filter (prefix fence) ls)))"
  by (induction ls arbitrary: st i) (auto simp: process_line_toggle)

lemma fence_last_empty:
  assumes "outside_clean st" "ls \<noteq> []" "prefix fence (last ls)" "inCodeBlock (forEach st i ls)"
  shows "currentCodeBlock (forEach st i ls) = []"
proof -
  let ?st = "forEach st i (butlast ls)"
  have ls: "ls = butlast ls @ [last ls]" using assms(2) by simp
  have fin: "forEach st i ls = process_line ?st (i + length (butlast ls)) (last ls)"
    by (subst ls) (simp only: forEach_append forEach.simps)
  have clean: "outside_clean ?st" using assms(1) by (rule forEach_clean)
  show ?thesis
  proof (cases "inCodeBlock ?st")
    case True
    then have "\<not> inCodeBlock (forEach st i ls)"
      using assms(3) by (simp add: fin process_line_toggle)
    with assms(4) show ?thesis by simp
  next
    case False
    with clean have "currentCodeBlock ?st = []" by (simp add: outside_clean_def)
    then show ?thesis
      using False assms(3) by (simp add: fin open_fence)
  qed
qed

lemma content_lines_nonempty: "content_lines text \<noteq> []"
proof -
  have "split_acc sep cur s \<noteq> []" for sep cur s
    by (induction s arbitrary: cur) auto
  then show ?thesis by (simp add: content_lines_def split_def)
qed

lemma process_line_same:
  assumes "\<not> inCodeBlock st \<and> \<not> prefix fence l \<longrightarrow> (\<forall>c\<in>set l. \<not> html_special c)"
    and "\<not> inCodeBlock st \<and> prefix fence l \<longrightarrow> trim (drop 3 l) = drop 3 l"
  shows "process_line st i l = process_line_1 st i l"
proof (cases "inCodeBlock st")
  case True
  then show ?thesis by (simp add: process_line_def process_line_1_def)
next
  case out: False
  show ?thesis
  proof (cases "prefix fence l")
    case True
    with out assms(2) have f: "trim (replace fence [] l) = replace fence [] l"
      by (simp add: replace_prefix) (simp add: fence_def numeral_3_eq_3)
    show ?thesis
      using True out by (simp add: process_line_def process_line_1_def f del: prefix_code)
  next
    case False
    with out assms(1) have plain: "\<forall>c\<in>set l. \<not> html_special c" by simp
    have e: "escapeHtml l = l" using plain by (rule escapeHtml_id)
    have r: "escapeHtml (replace pat [] l) = replace pat [] l" for pat
      using plain replace_set [of pat l] by (intro escapeHtml_id) auto
    show ?thesis
      using out False by (simp add: process_line_def process_line_1_def e r del: prefix_code)
  qed
qed

lemma forEach_same:
  "\<forall>l\<in>set (outside_lines (inCodeBlock st) ls). \<forall>c\<in>set l. \<not> html_special c \<Longrightarrow>
   \<forall>l\<in>set (opening_fences (inCodeBlock st) ls). trim (drop 3 l) = drop 3 l \<Longrightarrow>
   forEach st i ls = forEach_1 st i ls"
proof (induction ls arbitrary: st i)
  case Nil
  show ?case by simp
next
  case (Cons l ls)
  have "\<not> inCodeBlock st \<and> \<not> prefix fence l \<longrightarrow> (\<forall>c\<in>set l. \<not> html_special c)"
    using Cons.prems(1) by (simp split: if_splits)
  moreover have "\<not> inCodeBlock st \<and> prefix fence l \<longrightarrow> trim (drop 3 l) = drop 3 l"
    using Cons.prems(2) by (simp split: if_splits)
  ultimately have step: "process_line st i l = process_line_1 st i l"
    by (rule process_line_same)
  have tog: "inCodeBlock (process_line st i l) = (inCodeBlock st \<noteq> prefix fence l)"
    by (rule process_line_toggle)
  have sub1: "set (outside_lines (inCodeBlock (process_line st i l)) ls)
                \<subseteq> set (outside_lines (inCodeBlock st) (l # ls))"
    by (auto simp: tog)
  have sub2: "set (opening_fences (inCodeBlock (process_line st i l)) ls)
                \<subseteq> set (opening_fences (inCodeBlock st) (l # ls))"
    by (auto simp: tog)
  have "forEach (process_line st i l) (Suc i) ls = forEach_1 (process_line st i l) (Suc i) ls"
  proof (rule Cons.IH)
    show "\<forall>l\<in>set (outside_lines (inCodeBlock (process_line st i l)) ls). \<forall>c\<in>set l. \<not> html_special c"
      using Cons.prems(1) sub1 by blast
    show "\<forall>l\<in>set (opening_fences (inCodeBlock (process_line st i l)) ls). trim (drop 3 l) = drop 3 l"
      using Cons.prems(2) sub2 by blast
  qed
  then show ?case by (simp add: step)
qed

text \<open>
  Claim C2, as stated, fails on three contents: on \<open><b>\<close>, where page.tsx escapes the
  text of the paragraph and part\_001 does not; on a closed fence opened by \<open>``` ts\<close>,
  where page.tsx trims the language and part\_001 does not; on an unclosed fence with one
  line, where page.tsx returns a final code block and part\_001 returns nothing.
\<close>

theorem renderers_differ:
  "renderContent ''<b>'' \<noteq> renderContent_1 ''<b>''
   \<and> renderContent (''``` ts'' @ [CHR 0x0A] @ ''x'' @ [CHR 0x0A] @ ''```'')
       \<noteq> renderContent_1 (''``` ts'' @ [CHR 0x0A] @ ''x'' @ [CHR 0x0A] @ ''```'')
   \<and> renderContent (''```'' @ [CHR 0x0A] @ ''x'') \<noteq> renderContent_1 (''```'' @ [CHR 0x0A] @ ''x'')"
  by code_simp

text \<open>
  Claim C2, amended. The two renderers return the same elements for every content in
  which no line outside a code fence contains one of the five characters \<open>& < > " '\<close>, in
  which the text after \<open>```\<close> on every line that opens a fence has no white space at its
  ends, and which has an even number of fence lines or a fence line as its last line.
\<close>

theorem renderers_agree:
  assumes plain: "\<forall>l\<in>set (outside_lines False (content_lines text)). \<forall>c\<in>set l. \<not> html_special c"
    and trimmed: "\<forall>l\<in>set (opening_fences False (content_lines text)). trim (drop 3 l) = drop 3 l"
    and closed: "even (length (filter (prefix fence) (content_lines text)))
                 \<or> prefix fence (last (content_lines text))"
  shows "renderContent text = renderContent_1 text"
proof -
  let ?ls = "content_lines text"
  let ?st = "forEach init_state 0 ?ls"
  have same: "?st = forEach_1 init_state 0 ?ls"
    using plain trimmed by (intro forEach_same) (simp_all add: init_state_def)
  have "\<not> (inCodeBlock ?st \<and> length (currentCodeBlock ?st) > 0)"
  proof
    assume a: "inCodeBlock ?st \<and> length (currentCodeBlock ?st) > 0"
    then have "odd (length (filter (prefix fence) ?ls))"
      by (simp add: forEach_parity init_state_def)
    with closed have "prefix fence (last ?ls)" by blast
    from fence_last_empty [OF init_clean content_lines_nonempty this, of 0] a
    show False by simp
  qed
  then have "renderContent text = elements ?st"
    by (auto simp: renderContent_def finish_def)
  with same show ?thesis by (simp add: renderContent_1_def)
qed

section \<open>Properties of the structured data\<close>

lemma project_items_nth:
  "i < length projects \<Longrightarrow>
   map (\<lambda>(project, index). project_item cfg project index) (zip projects [0..<length projects]) ! i
     = project_item cfg (projects ! i) i"
  by simp

text \<open>
  Claim C7. In \<open>projectsListSchema\<close>, \<open>numberOfItems\<close> is the number of projects and
  \<open>itemListElement\<close> has one entry per project, in order, the entry of project \<open>i\<close> with
  position \<open>i + 1\<close> and with the name, description and url of that project. In
  \<open>faqSchema\<close>, \<open>mainEntity\<close> has one Question per FAQ entry, in order, with the question
  and the answer of that entry. \<open>generateSchemaScript\<close> returns the JSON text of the list
  of the eight schemas, a value fixed when the module is loaded.
\<close>

theorem structured_data_maps:
  "jget ''numberOfItems'' (projectsListSchema cfg projects) = Some (JNumber (int (length projects)))
   \<and> (\<exists>items. jget ''itemListElement'' (projectsListSchema cfg projects) = Some (JArray items)
        \<and> length items = length projects
        \<and> (\<forall>i<length projects.
             jget ''position'' (items ! i) = Some (JNumber (int i + 1))
             \<and> (\<exists>item. jget ''item'' (items ! i) = Some item
                  \<and> jget ''name'' item = Some (JString (project_name (projects ! i)))
                  \<and> jget ''description'' item = Some (JString (project_description (projects ! i)))
                  \<and> jget ''url'' item = Some (JString (project_url (projects ! i))))))
   \<and> (\<exists>qs. jget ''mainEntity'' (faqSchema cfg faqs) = Some (JArray qs)
        \<and> length qs = length faqs
        \<and> (\<forall>i<length faqs.
             jget ''@type'' (qs ! i) = Some (JString ''Question'')
             \<and> jget ''name'' (qs ! i) = Some (JString (question (faqs ! i)))
             \<and> (\<exists>a. jget ''acceptedAnswer'' (qs ! i) = Some a
                  \<and> jget ''text'' a = Some (JString (answer (faqs ! i))))))
   \<and> generateSchemaScript (combinedSchema cfg projects faqs today) =
       JSON_stringify (JArray
         [personSchema cfg, websiteSchema cfg, webPageSchema cfg today,
          profilePageSchema cfg today, projectsListSchema cfg projects, faqSchema cfg faqs,
          breadcrumbSchema cfg, serviceSchema cfg])"
proof -
  let ?items = "map (\<lambda>(project, index). project_item cfg project index)
                    (zip projects [0..<length projects])"
  have n: "jget ''numberOfItems'' (projectsListSchema cfg projects)
             = Some (JNumber (int (length projects)))"
    by (simp add: projectsListSchema_def)
  have il: "jget ''itemListElement'' (projectsListSchema cfg projects) = Some (JArray ?items)"
    by (simp add: projectsListSchema_def)
  have len: "length ?items = length projects" by simp
  have each: "jget ''position'' (?items ! i) = Some (JNumber (int i + 1))
             \<and> (\<exists>item. jget ''item'' (?items ! i) = Some item
                  \<and> jget ''name'' item = Some (JString (project_name (projects ! i)))
                  \<and> jget ''description'' item = Some (JString (project_description (projects ! i)))
                  \<and> jget ''url'' item = Some (JString (project_url (projects ! i))))"
    if "i < length projects" for i
    unfolding project_items_nth [OF that] by (simp add: project_item_def)
  have fq: "jget ''mainEntity'' (faqSchema cfg faqs) = Some (JArray (map faq_item faqs))"
    by (simp add: faqSchema_def)
  have feach: "jget ''@type'' (map faq_item faqs ! i) = Some (JString ''Question'')
             \<and> jget ''name'' (map faq_item faqs ! i) = Some (JString (question (faqs ! i)))
             \<and> (\<exists>a. jget ''acceptedAnswer'' (map faq_item faqs ! i) = Some a
                  \<and> jget ''text'' a = Some (JString (answer (faqs ! i))))"
    if "i < length faqs" for i
    using that by (simp add: faq_item_def)
  have gen: "generateSchemaScript (combinedSchema cfg projects faqs today) =
       JSON_stringify (JArray
         [personSchema cfg, websiteSchema cfg, webPageSchema cfg today,
          profilePageSchema cfg today, projectsListSchema cfg projects, faqSchema cfg faqs,
          breadcrumbSchema cfg, serviceSchema cfg])"
    by (simp add: generateSchemaScript_def combinedSchema_def)
  from il len each have p: "\<exists>items. jget ''itemListElement'' (projectsListSchema cfg projects) = Some (JArray items)
        \<and> length items = length projects
        \<and> (\<forall>i<length projects.
             jget ''position'' (items ! i) = Some (JNumber (int i + 1))
             \<and> (\<exists>item. jget ''item'' (items ! i) = Some item
                  \<and> jget ''name'' item = Some (JString (project_name (projects ! i)))
                  \<and> jget ''description'' item = Some (JString (project_description (projects ! i)))
                  \<and> jget ''url'' item = Some (JString (project_url (projects ! i)))))"
    by blast
  from fq feach have q: "\<exists>qs. jget ''mainEntity'' (faqSchema cfg faqs) = Some (JArray qs)
        \<and> length qs = length faqs
        \<and> (\<forall>i<length faqs.
             jget ''@type'' (qs ! i) = Some (JString ''Question'')
             \<and> jget ''name'' (qs ! i) = Some (JString (question (faqs ! i)))
             \<and> (\<exists>a. jget ''acceptedAnswer'' (qs ! i) = Some a
                  \<and> jget ''text'' a = Some (JString (answer (faqs ! i)))))"
    by (intro exI [of _ "map faq_item faqs"]) simp
  from n p q gen show ?thesis by blast
qed

theorem structured_data_maps_witness:
  "Suc 0 < length projectsData
   \<and> jget ''numberOfItems'' (projectsListSchema siteConfig projectsData) = Some (JNumber 3)
   \<and> (\<exists>items. jget ''itemListElement'' (projectsListSchema siteConfig projectsData) = Some (JArray items)
        \<and> length items = 3
        \<and> jget ''position'' (items ! Suc 0) = Some (JNumber 2)
        \<and> (\<exists>item. jget ''item'' (items ! Suc 0) = Some item
              \<and> jget ''name'' item = Some (JString ''theEngineerGuy'')
              \<and> jget ''url'' item = Some (JString ''https://theengineerguy.vercel.app/'')))
   \<and> Suc 0 < length faqData
   \<and> (\<exists>qs. jget ''mainEntity'' (faqSchema siteConfig faqData) = Some (JArray qs)
        \<and> length qs = 4
        \<and> jget ''name'' (qs ! Suc 0) = Some (JString ''Is Debmalya available for freelance projects?''))"
proof -
  have lp: "length projectsData = 3" and lf: "length faqData = 4"
    by (simp_all add: projectsData_def faqData_def)
  have p1: "project_name (projectsData ! Suc 0) = ''theEngineerGuy''"
    "project_url (projectsData ! Suc 0) = ''https://theengineerguy.vercel.app/''"
    by (simp_all add: projectsData_def)
  have f1: "question (faqData ! Suc 0) = ''Is Debmalya available for freelance projects?''"
    by (simp add: faqData_def)
  note t = structured_data_maps [of siteConfig projectsData faqData "[]"]
  from t obtain items where items:
    "jget ''itemListElement'' (projectsListSchema siteConfig projectsData) = Some (JArray items)"
    "length items = length projectsData"
    "\<forall>i<length projectsData.
       jget ''position'' (items ! i) = Some (JNumber (int i + 1))
       \<and> (\<exists>item. jget ''item'' (items ! i) = Some item
            \<and> jget ''name'' item = Some (JString (project_name (projectsData ! i)))
            \<and> jget ''description'' item = Some (JString (project_description (projectsData ! i)))
            \<and> jget ''url'' item = Some (JString (project_url (projectsData ! i))))"
    by blast
  from t obtain qs where qs:
    "jget ''mainEntity'' (faqSchema siteConfig faqData) = Some (JArray qs)"
    "length qs = length faqData"
    "\<forall>i<length faqData.
       jget ''@type'' (qs ! i) = Some (JString ''Question'')
       \<and> jget ''name'' (qs ! i) = Some (JString (question (faqData ! i)))
       \<and> (\<exists>a. jget ''acceptedAnswer'' (qs ! i) = Some a
            \<and> jget ''text'' a = Some (JString (answer (faqData ! i))))"
    by blast
  from items(3) lp have i1: "jget ''position'' (items ! Suc 0) = Some (JNumber 2)
        \<and> (\<exists>item. jget ''item'' (items ! Suc 0) = Some item
              \<and> jget ''name'' item = Some (JString ''theEngineerGuy'')
              \<and> jget ''url'' item = Some (JString ''https://theengineerguy.vercel.app/''))"
    using p1 by (auto dest!: spec [of _ "Suc 0"])
  from qs(3) lf have q1: "jget ''name'' (qs ! Suc 0) = Some (JString ''Is Debmalya available for freelance projects?'')"
    using f1 by (auto dest!: spec [of _ "Suc 0"])
  from t have n: "jget ''numberOfItems'' (projectsListSchema siteConfig projectsData) = Some (JNumber 3)"
    using lp by simp
  from lp lf n items(1,2) i1 qs(1,2) q1 show ?thesis by auto
qed

section \<open>The renderer on concrete contents\<close>

theorem paragraph_html_safe_witness:
  "Paragraph (Index 0) ''&lt;i&gt;x&lt;/i&gt; <strong>b</strong>'' \<in> set (renderContent ''<i>x</i> **b**'')
   \<and> (\<exists>line\<in>set (content_lines ''<i>x</i> **b**'').
         ''&lt;i&gt;x&lt;/i&gt; <strong>b</strong>'' = inline_code (bold (escapeHtml line)))
   \<and> ''&lt;i&gt;x&lt;/i&gt; <strong>b</strong>'' ! 21 = CHR ''<''
   \<and> (\<exists>t\<in>set safe_tags. prefix t (drop 21 ''&lt;i&gt;x&lt;/i&gt; <strong>b</strong>''))"
proof -
  have m: "Paragraph (Index 0) ''&lt;i&gt;x&lt;/i&gt; <strong>b</strong>''
             \<in> set (renderContent ''<i>x</i> **b**'')"
    by code_simp
  have at: "''&lt;i&gt;x&lt;/i&gt; <strong>b</strong>'' ! 21 = CHR ''<''"
    and len: "21 < length ''&lt;i&gt;x&lt;/i&gt; <strong>b</strong>''"
    by simp_all
  from paragraph_html_safe [OF m] m at len show ?thesis by blast
qed

theorem line_classification_witness:
  "\<not> inCodeBlock init_state
   \<and> process_line init_state 0 ''```ts '' = init_state\<lparr>inCodeBlock := True, codeLanguage := ''ts''\<rparr>
   \<and> process_line init_state 1 ''# A<b # c'' = push (H1 (Index 1) ''A&lt;b # c'') init_state
   \<and> process_line init_state 2 ''## B'' = push (H2 (Index 2) ''B'') init_state
   \<and> process_line init_state 3 ''### C'' = push (H3 (Index 3) ''C'') init_state
   \<and> process_line init_state 4 ''---- x'' = push (Separator (Index 4)) init_state
   \<and> process_line init_state 5 ''   '' = init_state
   \<and> process_line init_state 6 ''#no **heading**'' =
        push (Paragraph (Index 6) ''#no <strong>heading</strong>'') init_state
   \<and> trim (''  '' @ [CHR 0x0A] @ ''# T'' @ [CHR 0x0A, CHR 0x0A] @ ''text <b>'' @ [CHR 0x0A]
         @ ''---'' @ [CHR 0x0A] @ ''## S  '' @ [CHR 0x0A])
       = ''# T'' @ [CHR 0x0A, CHR 0x0A] @ ''text <b>'' @ [CHR 0x0A] @ ''---'' @ [CHR 0x0A] @ ''## S''
   \<and> content_lines (''  '' @ [CHR 0x0A] @ ''# T'' @ [CHR 0x0A, CHR 0x0A] @ ''text <b>'' @ [CHR 0x0A]
         @ ''---'' @ [CHR 0x0A] @ ''## S  '' @ [CHR 0x0A])
       = [''# T'', [], ''text <b>'', ''---'', ''## S'']
   \<and> join [CHR 0x0A] [''# T'', [], ''text <b>'', ''---'', ''## S'']
       = ''# T'' @ [CHR 0x0A, CHR 0x0A] @ ''text <b>'' @ [CHR 0x0A] @ ''---'' @ [CHR 0x0A] @ ''## S''
   \<and> \<not> list_ex (prefix ''```'') [''# T'', [], ''text <b>'', ''---'', ''## S'']
   \<and> renderContent (''  '' @ [CHR 0x0A] @ ''# T'' @ [CHR 0x0A, CHR 0x0A] @ ''text <b>'' @ [CHR 0x0A]
         @ ''---'' @ [CHR 0x0A] @ ''## S  '' @ [CHR 0x0A])
       = [H1 (Index 0) ''T'', Paragraph (Index 2) ''text &lt;b&gt;'', Separator (Index 3),
          H2 (Index 4) ''S'']"
proof -
  let ?text = "''  '' @ [CHR 0x0A] @ ''# T'' @ [CHR 0x0A, CHR 0x0A] @ ''text <b>'' @ [CHR 0x0A]
         @ ''---'' @ [CHR 0x0A] @ ''## S  '' @ [CHR 0x0A]"
  let ?lines = "[''# T'', [], ''text <b>'', ''---'', ''## S'']"
  have out: "\<not> inCodeBlock init_state" by (simp add: init_state_def)
  have v: "trim (drop 3 ''```ts '') = ''ts''" "escapeHtml (drop 2 ''# A<b # c'') = ''A&lt;b # c''"
    "escapeHtml (drop 3 ''## B'') = ''B''" "escapeHtml (drop 4 ''### C'') = ''C''"
    "trim ''   '' = []" "trim ''#no **heading**'' \<noteq> []"
    "inline_code (bold (escapeHtml ''#no **heading**'')) = ''#no <strong>heading</strong>''"
    by code_simp+
  have p: "prefix ''```'' ''```ts ''" "prefix ''# '' ''# A<b # c''" "prefix ''## '' ''## B''"
    "prefix ''### '' ''### C''" "prefix ''---'' ''---- x''"
    "\<not> prefix ''```'' ''#no **heading**'' \<and> \<not> prefix ''# '' ''#no **heading**''
     \<and> \<not> prefix ''## '' ''#no **heading**'' \<and> \<not> prefix ''### '' ''#no **heading**''
     \<and> \<not> prefix ''---'' ''#no **heading**''"
    by simp_all
  from out line_classification [of init_state "''```ts ''" 0 "[]"] p(1) v(1)
  have a: "process_line init_state 0 ''```ts '' = init_state\<lparr>inCodeBlock := True, codeLanguage := ''ts''\<rparr>"
    by simp
  from out line_classification [of init_state "''# A<b # c''" 1 "[]"] p(2) v(2)
  have b: "process_line init_state 1 ''# A<b # c'' = push (H1 (Index 1) ''A&lt;b # c'') init_state"
    by simp
  from out line_classification [of init_state "''## B''" 2 "[]"] p(3) v(3)
  have c: "process_line init_state 2 ''## B'' = push (H2 (Index 2) ''B'') init_state"
    by simp
  from out line_classification [of init_state "''### C''" 3 "[]"] p(4) v(4)
  have d: "process_line init_state 3 ''### C'' = push (H3 (Index 3) ''C'') init_state"
    by simp
  from out line_classification [of init_state "''---- x''" 4 "[]"] p(5)
  have e: "process_line init_state 4 ''---- x'' = push (Separator (Index 4)) init_state"
    by simp
  from out line_classification [of init_state "''   ''" 5 "[]"] v(5)
  have f: "process_line init_state 5 ''   '' = init_state"
    by simp
  from out line_classification [of init_state "''#no **heading**''" 6 "[]"] p(6) v(6,7)
  have g: "process_line init_state 6 ''#no **heading**'' =
        push (Paragraph (Index 6) ''#no <strong>heading</strong>'') init_state"
    by simp
  have t: "trim ?text
       = ''# T'' @ [CHR 0x0A, CHR 0x0A] @ ''text <b>'' @ [CHR 0x0A] @ ''---'' @ [CHR 0x0A] @ ''## S''"
    by code_simp
  have l: "content_lines ?text = ?lines" by code_simp
  have nofence: "\<not> list_ex (prefix ''```'') ?lines" by code_simp
  then have nofence': "\<forall>l\<in>set (content_lines ?text). \<not> prefix ''```'' l"
    unfolding l list_ex_iff by blast
  note whole = line_classification [of init_state "[]" 0 ?text]
  from whole have j: "join [CHR 0x0A] (content_lines ?text) = trim ?text" by blast
  from whole nofence' have "renderContent ?text =
          concat (map (\<lambda>(k, l). classify_line k l)
                      (zip [0..<length (content_lines ?text)] (content_lines ?text)))"
    by blast
  also have "\<dots> = [H1 (Index 0) ''T'', Paragraph (Index 2) ''text &lt;b&gt;'', Separator (Index 3),
          H2 (Index 4) ''S'']"
    unfolding l by code_simp
  finally have r: "renderContent ?text
       = [H1 (Index 0) ''T'', Paragraph (Index 2) ''text &lt;b&gt;'', Separator (Index 3),
          H2 (Index 4) ''S'']" .
  from j have j': "join [CHR 0x0A] ?lines
       = ''# T'' @ [CHR 0x0A, CHR 0x0A] @ ''text <b>'' @ [CHR 0x0A] @ ''---'' @ [CHR 0x0A] @ ''## S''"
    unfolding l t .
  from out a b c d e f g t l j' nofence r show ?thesis by blast
qed


theorem unclosed_fence_witness:
  "content_lines (''a'' @ [CHR 0x0A] @ ''```js'' @ [CHR 0x0A] @ ''x'' @ [CHR 0x0A] @ ''# y'')
     = [''a''] @ ''```js'' # [''x'', ''# y'']
   \<and> content_lines (''a'' @ [CHR 0x0A] @ ''```js'' @ [CHR 0x0A]) = [''a''] @ ''```js'' # []
   \<and> \<not> inCodeBlock (forEach init_state 0 [''a''])
   \<and> prefix fence ''```js''
   \<and> \<not> list_ex (prefix fence) [''x'', ''# y'']
   \<and> renderContent (''a'' @ [CHR 0x0A] @ ''```js'' @ [CHR 0x0A] @ ''x'' @ [CHR 0x0A] @ ''# y'')
     = [Paragraph (Index 0) ''a'', Pre CodeEnd ''language-js text-sm'' (''x'' @ [CHR 0x0A] @ ''# y'')]
   \<and> renderContent (''a'' @ [CHR 0x0A] @ ''```js'' @ [CHR 0x0A]) = [Paragraph (Index 0) ''a'']"
proof -
  let ?t1 = "''a'' @ [CHR 0x0A] @ ''```js'' @ [CHR 0x0A] @ ''x'' @ [CHR 0x0A] @ ''# y''"
  let ?t2 = "''a'' @ [CHR 0x0A] @ ''```js'' @ [CHR 0x0A]"
  have l1: "content_lines ?t1 = [''a''] @ ''```js'' # [''x'', ''# y'']"
    and l2: "content_lines ?t2 = [''a''] @ ''```js'' # []"
    by code_simp+
  have o: "\<not> inCodeBlock (forEach init_state 0 [''a''])" by code_simp
  have p: "prefix fence ''```js''" by code_simp
  have b: "\<not> list_ex (prefix fence) [''x'', ''# y'']" by code_simp
  then have b1: "\<forall>l\<in>set [''x'', ''# y'']. \<not> prefix fence l" by (simp only: list_ex_iff) blast
  have b2: "\<forall>l\<in>set []. \<not> prefix fence l" by simp
  have e: "elements (forEach init_state 0 [''a'']) = [Paragraph (Index 0) ''a'']"
    "code_class (trim (drop 3 ''```js'')) = ''language-js text-sm''"
    "join [CHR 0x0A] [''x'', ''# y''] = ''x'' @ [CHR 0x0A] @ ''# y''"
    by code_simp+
  from unclosed_fence [OF l1 o p b1] e
  have r1: "renderContent ?t1 =
      [Paragraph (Index 0) ''a'', Pre CodeEnd ''language-js text-sm'' (''x'' @ [CHR 0x0A] @ ''# y'')]"
    by simp
  from unclosed_fence [OF l2 o p b2] e
  have r2: "renderContent ?t2 = [Paragraph (Index 0) ''a'']"
    by simp
  from l1 l2 o p b r1 r2 show ?thesis by blast
qed

theorem renderers_agree_witness:
  "\<not> list_ex (list_ex html_special)
        (outside_lines False (content_lines (''# T'' @ [CHR 0x0A] @ ''```ts'' @ [CHR 0x0A]
           @ ''if (x < y) {}'' @ [CHR 0x0A] @ ''```'' @ [CHR 0x0A] @ ''**b** t'')))
   \<and> \<not> list_ex (\<lambda>l. trim (drop 3 l) \<noteq> drop 3 l)
         (opening_fences False (content_lines (''# T'' @ [CHR 0x0A] @ ''```ts'' @ [CHR 0x0A]
            @ ''if (x < y) {}'' @ [CHR 0x0A] @ ''```'' @ [CHR 0x0A] @ ''**b** t'')))
   \<and> even (length (filter (prefix fence)
         (content_lines (''# T'' @ [CHR 0x0A] @ ''```ts'' @ [CHR 0x0A] @ ''if (x < y) {}'' @ [CHR 0x0A]
            @ ''```'' @ [CHR 0x0A] @ ''**b** t''))))
   \<and> renderContent (''# T'' @ [CHR 0x0A] @ ''```ts'' @ [CHR 0x0A] @ ''if (x < y) {}'' @ [CHR 0x0A]
         @ ''```'' @ [CHR 0x0A] @ ''**b** t'')
     = renderContent_1 (''# T'' @ [CHR 0x0A] @ ''```ts'' @ [CHR 0x0A] @ ''if (x < y) {}'' @ [CHR 0x0A]
         @ ''```'' @ [CHR 0x0A] @ ''**b** t'')
   \<and> renderContent_1 (''# T'' @ [CHR 0x0A] @ ''```ts'' @ [CHR 0x0A] @ ''if (x < y) {}'' @ [CHR 0x0A]
         @ ''```'' @ [CHR 0x0A] @ ''**b** t'')
     = [H1 (Index 0) ''T'', Pre (Code 3) ''language-ts text-sm'' ''if (x < y) {}'',
        Paragraph (Index 4) ''<strong>b</strong> t'']"
proof -
  let ?text = "''# T'' @ [CHR 0x0A] @ ''```ts'' @ [CHR 0x0A] @ ''if (x < y) {}'' @ [CHR 0x0A]
       @ ''```'' @ [CHR 0x0A] @ ''**b** t''"
  have a: "\<not> list_ex (list_ex html_special) (outside_lines False (content_lines ?text))"
    by code_simp
  have b: "\<not> list_ex (\<lambda>l. trim (drop 3 l) \<noteq> drop 3 l) (opening_fences False (content_lines ?text))"
    by code_simp
  have c: "even (length (filter (prefix fence) (content_lines ?text)))" by code_simp
  have v: "renderContent_1 ?text = [H1 (Index 0) ''T'', Pre (Code 3) ''language-ts text-sm'' ''if (x < y) {}'',
        Paragraph (Index 4) ''<strong>b</strong> t'']"
    by code_simp
  from a have a': "\<forall>l\<in>set (outside_lines False (content_lines ?text)). \<forall>c\<in>set l. \<not> html_special c"
    unfolding list_ex_iff by blast
  from b have b': "\<forall>l\<in>set (opening_fences False (content_lines ?text)). trim (drop 3 l) = drop 3 l"
    by (simp only: list_ex_iff) blast
  from renderers_agree [OF a' b'] c
  have "renderContent ?text = renderContent_1 ?text" by blast
  with a b c v show ?thesis by blast
qed

end
